theory Spec2Isabelle
  imports Main
begin

section \<open>The reminder job \<^verbatim>\<open>send-reminders.js\<close>\<close>

text \<open>
  A shallow embedding of \<^verbatim>\<open>.github/scripts/send-reminders.js\<close>: the date helpers, the two
  alert builders (\<^verbatim>\<open>buildAlerts\<close> of the older revision of the script and
  \<^verbatim>\<open>buildAlertsForSubscriber\<close> of the current one), \<^verbatim>\<open>formatAlertText\<close>,
  \<^verbatim>\<open>sendEmailViaREST\<close> and the current \<^verbatim>\<open>main\<close>.

  What the script reads from its environment is a parameter of the model: the local calendar
  date of the clock (\<open>today\<close>), the three Firestore reads (\<open>firestore\<close>) and what the
  EmailJS endpoint answers to the k-th request of the run (a function from \<open>nat\<close>).
  What it does to the outside is recorded in a trace of events (requests posted, pauses taken);
  console output is not modelled.
\<close>

subsection \<open>Records read from the store, alerts, errors\<close>

datatype error =
    TypeError                 \<comment> \<open>a method called on \<^verbatim>\<open>null\<close> or \<^verbatim>\<open>undefined\<close>\<close>
  | EmailJSError int string   \<comment> \<open>\<^verbatim>\<open>new Error(`EmailJS ${response.status}: ${body}`)\<close>\<close>
  | FetchError                \<comment> \<open>the promise of \<^verbatim>\<open>fetch\<close> rejected (no response at all)\<close>
  | StoreError                \<comment> \<open>a Firestore read rejected\<close>

record global_date =
  g_name :: string
  g_month :: int
  g_day :: int

record custom_date =
  c_label :: string
  c_date :: string

text \<open>
  A document of the collection \<^verbatim>\<open>wives\<close>. A field that may be missing is an option
  (\<open>None\<close> is \<^verbatim>\<open>undefined\<close>); \<open>custom\<close> is \<open>Some\<close> exactly when
  \<^verbatim>\<open>Array.isArray(p.custom)\<close>.
\<close>

record person =
  name :: string
  birthday :: "string option"
  anniversary :: "string option"
  custom :: "custom_date list option"
  ownerEmail :: "string option"

record subscriber =
  sub_name :: string
  sub_email :: "string option"

record alert =
  label :: string
  days :: int

text \<open>Truthiness of a value that is a string or \<^verbatim>\<open>undefined\<close>: a non-empty string.\<close>

fun truthy :: "string option \<Rightarrow> bool" where
  "truthy None = False"
| "truthy (Some s) = (s \<noteq> [])"

definition GLOBAL_DATES :: "global_date list" where
  "GLOBAL_DATES =
    [\<lparr>g_name = ''Valentine's Day'', g_month = 2, g_day = 14\<rparr>,
     \<lparr>g_name = ''International Women's Day'', g_month = 3, g_day = 8\<rparr>,
     \<lparr>g_name = ''Mother's Day'', g_month = 5, g_day = 11\<rparr>,
     \<lparr>g_name = ''Vietnamese Women's Day'', g_month = 10, g_day = 20\<rparr>,
     \<lparr>g_name = ''Christmas'', g_month = 12, g_day = 25\<rparr>]"

subsection \<open>Dates\<close>

text \<open>
  A \<^verbatim>\<open>Date\<close> that stands at a local midnight is modelled by its day number, the count of
  calendar days since 1 January 1970, and an Invalid Date by \<open>None\<close>. The day number of
  year, month index and day of month is ECMAScript's \<^verbatim>\<open>MakeDay\<close>: months outside 0..11
  carry into the year, and the day of month is added as it is, so day 0 or day 32 roll into
  the neighbouring month as in JavaScript.

  \<^verbatim>\<open>Math.round((d - t) / 86400000)\<close> of two local midnights is the difference of their day
  numbers as long as the UTC offsets of the two instants differ by less than twelve hours;
  the model takes it to be that difference (time zones are not modelled).
\<close>

definition InLeapYear :: "int \<Rightarrow> bool" where
  "InLeapYear y = (y mod 4 = 0 \<and> (y mod 100 \<noteq> 0 \<or> y mod 400 = 0))"

definition DaysInYear :: "int \<Rightarrow> int" where
  "DaysInYear y = (if InLeapYear y then 366 else 365)"

definition DayFromYear :: "int \<Rightarrow> int" where
  "DayFromYear y =
     365 * (y - 1970) + (y - 1969) div 4 - (y - 1901) div 100 + (y - 1601) div 400"

text \<open>The day within the year on which month \<open>mn\<close> (0..11) starts.\<close>

definition monthStart :: "int \<Rightarrow> int \<Rightarrow> int" where
  "monthStart y mn =
     (let l = (if InLeapYear y then 1 else 0) in
      if mn = 0 then 0 else if mn = 1 then 31 else if mn = 2 then 59 + l
      else if mn = 3 then 90 + l else if mn = 4 then 120 + l else if mn = 5 then 151 + l
      else if mn = 6 then 181 + l else if mn = 7 then 212 + l else if mn = 8 then 243 + l
      else if mn = 9 then 273 + l else if mn = 10 then 304 + l else 334 + l)"

definition DaysInMonth :: "int \<Rightarrow> int \<Rightarrow> int" where
  "DaysInMonth y mn =
     (if mn = 1 then (if InLeapYear y then 29 else 28)
      else if mn = 3 \<or> mn = 5 \<or> mn = 8 \<or> mn = 10 then 30 else 31)"

definition MakeDay :: "int \<Rightarrow> int \<Rightarrow> int \<Rightarrow> int" where
  "MakeDay y m dt =
     (let ym = y + m div 12; mn = m mod 12 in DayFromYear ym + monthStart ym mn + dt - 1)"

text \<open>
  \<^verbatim>\<open>new Date(y, m, d)\<close>: a year from 0 to 99 means 1900 + y, and a time value more than
  100,000,000 days from the epoch is an Invalid Date (\<^verbatim>\<open>TimeClip\<close>).
\<close>

definition newDate :: "int \<Rightarrow> int \<Rightarrow> int \<Rightarrow> int option" where
  "newDate y m d =
     (let yr = (if 0 \<le> y \<and> y \<le> 99 then 1900 + y else y); n = MakeDay yr m d in
      if \<bar>n\<bar> \<le> 100000000 then Some n else None)"

text \<open>The same with arguments that may be \<^verbatim>\<open>NaN\<close> (\<open>None\<close>): the Date is then invalid.\<close>

fun newDateN :: "int \<Rightarrow> int option \<Rightarrow> int option \<Rightarrow> int option" where
  "newDateN y (Some m) (Some d) = newDate y m d"
| "newDateN y _ _ = None"

text \<open>
  The clock: the local calendar date of the instant of the run, with the names of the
  accessors of \<^verbatim>\<open>Date\<close> (\<open>getMonth\<close> is the month index, 0..11).
\<close>

record today =
  getFullYear :: int
  getMonth :: int
  getDate :: int

text \<open>
  A clock reading that is a calendar date, from 1970 on and early enough for every date of
  the following year to be within the range of \<^verbatim>\<open>Date\<close> (which ends in September 275760).
\<close>

definition valid_today :: "today \<Rightarrow> bool" where
  "valid_today t =
     (1970 \<le> getFullYear t \<and> getFullYear t \<le> 275758 \<and>
      0 \<le> getMonth t \<and> getMonth t \<le> 11 \<and>
      1 \<le> getDate t \<and> getDate t \<le> DaysInMonth (getFullYear t) (getMonth t))"

definition todayMidnight :: "today \<Rightarrow> int" where
  "todayMidnight t = MakeDay (getFullYear t) (getMonth t) (getDate t)"

text \<open>\<^verbatim>\<open>d < t\<close> for a Date \<open>d\<close> that may be invalid: a comparison with \<^verbatim>\<open>NaN\<close> is false.\<close>

fun dateBefore :: "int option \<Rightarrow> int \<Rightarrow> bool" where
  "dateBefore None t = False"
| "dateBefore (Some d) t = (d < t)"

definition daysUntilFixed :: "today \<Rightarrow> int \<Rightarrow> int \<Rightarrow> int option" where
  "daysUntilFixed now month day =
     (let t = todayMidnight now;
          d = newDate (getFullYear now) (month - 1) day;
          d = (if dateBefore d t then newDate (getFullYear now + 1) (month - 1) day else d)
      in map_option (\<lambda>d. d - t) d)"

text \<open>
  \<^verbatim>\<open>dateStr.split('-')\<close>: the pieces between hyphens, at least one piece.
\<close>

fun split :: "char \<Rightarrow> string \<Rightarrow> string list" where
  "split sep [] = [[]]"
| "split sep (c # cs) =
     (if c = sep then [] # split sep cs
      else (case split sep cs of [] \<Rightarrow> [[c]] | p # ps \<Rightarrow> (c # p) # ps))"

text \<open>
  \<^verbatim>\<open>Number(s)\<close> on the strings the model covers: a string of decimal digits is its value,
  the empty string is 0, and any other string is \<^verbatim>\<open>NaN\<close> (\<open>None\<close>). JavaScript also reads
  surrounding white space, a sign, a fraction, an exponent and radix prefixes; such strings
  are outside the model.
\<close>

definition digitValue :: "char \<Rightarrow> int option" where
  "digitValue c = map_of (zip ''0123456789'' [0, 1, 2, 3, 4, 5, 6, 7, 8, 9]) c"

fun digitsValue :: "int \<Rightarrow> string \<Rightarrow> int option" where
  "digitsValue acc [] = Some acc"
| "digitsValue acc (c # cs) =
     (case digitValue c of None \<Rightarrow> None | Some v \<Rightarrow> digitsValue (10 * acc + v) cs)"

definition Number :: "string \<Rightarrow> int option" where
  "Number s = digitsValue 0 s"

text \<open>\<^verbatim>\<open>parts[i]\<close> as a number: an index out of range reads \<^verbatim>\<open>undefined\<close>, which is \<^verbatim>\<open>NaN\<close> in arithmetic.\<close>

definition part :: "int option list \<Rightarrow> nat \<Rightarrow> int option" where
  "part parts i = (if i < length parts then parts ! i else None)"

definition daysUntil :: "today \<Rightarrow> string \<Rightarrow> int option" where
  "daysUntil now dateStr =
     (let t = todayMidnight now;
          parts = map Number (split CHR ''-'' dateStr);
          m = (if length parts = 3 then part parts 1 else part parts 0);
          d = (if length parts = 3 then part parts 2 else part parts 1);
          dt = newDateN (getFullYear now) (map_option (\<lambda>m. m - 1) m) d;
          dt = (if dateBefore dt t then newDateN (getFullYear now + 1) (map_option (\<lambda>m. m - 1) m) d
                else dt)
      in map_option (\<lambda>dt. dt - t) dt)"

subsection \<open>Building the alerts\<close>

text \<open>
  \<^verbatim>\<open>if (d <= maxDays) alerts.push({ label, days: d })\<close>, where \<open>d\<close> may be \<^verbatim>\<open>NaN\<close>
  (the comparison is then false and nothing is pushed).
\<close>

fun pushIfDue :: "int \<Rightarrow> string \<Rightarrow> int option \<Rightarrow> alert list \<Rightarrow> alert list" where
  "pushIfDue maxDays l None alerts = alerts"
| "pushIfDue maxDays l (Some d) alerts =
     (if d \<le> maxDays then alerts @ [\<lparr>label = l, days = d\<rparr>] else alerts)"

text \<open>The first loop of both builders, over \<^verbatim>\<open>GLOBAL_DATES\<close>.\<close>

definition pushGlobals :: "today \<Rightarrow> int \<Rightarrow> alert list \<Rightarrow> alert list" where
  "pushGlobals now maxDays alerts =
     foldl (\<lambda>alerts g. pushIfDue maxDays (g_name g) (daysUntilFixed now (g_month g) (g_day g)) alerts)
       alerts GLOBAL_DATES"

text \<open>The array \<^verbatim>\<open>all\<close> of one person: pairs of a label and a date string.\<close>

definition candidates :: "person \<Rightarrow> (string \<times> string) list" where
  "candidates p =
     (case birthday p of
        Some b \<Rightarrow> if b \<noteq> [] then [(name p @ '''s Birthday'', b)] else []
      | None \<Rightarrow> []) @
     (case anniversary p of
        Some a \<Rightarrow> if a \<noteq> [] then [(name p @ '''s Anniversary'', a)] else []
      | None \<Rightarrow> []) @
     (case custom p of
        Some cs \<Rightarrow> map (\<lambda>c. (c_label c @ '' ('' @ name p @ '')'', c_date c)) cs
      | None \<Rightarrow> [])"

text \<open>The body of the loop over the people, after the ownership test.\<close>

definition pushPerson :: "today \<Rightarrow> int \<Rightarrow> person \<Rightarrow> alert list \<Rightarrow> alert list" where
  "pushPerson now maxDays p alerts =
     foldl (\<lambda>alerts dt. pushIfDue maxDays (fst dt) (daysUntil now (snd dt)) alerts)
       alerts (candidates p)"

text \<open>
  \<^verbatim>\<open>alerts.sort((a, b) => a.days - b.days)\<close>. The sort of an array is stable (ECMAScript
  2019), and a stable sort by an integer key has one result, which insertion sort computes.
\<close>

definition sortByDays :: "alert list \<Rightarrow> alert list" where
  "sortByDays alerts = sort_key days alerts"

definition buildAlerts :: "today \<Rightarrow> person list \<Rightarrow> int \<Rightarrow> alert list" where
  "buildAlerts now people maxDays =
     sortByDays (foldl (\<lambda>alerts p. pushPerson now maxDays p alerts) (pushGlobals now maxDays []) people)"

text \<open>\<^verbatim>\<open>toLowerCase\<close>, on ASCII letters; other characters are left as they are.\<close>

definition lowerChar :: "char \<Rightarrow> char" where
  "lowerChar c =
     (case map_of (zip ''ABCDEFGHIJKLMNOPQRSTUVWXYZ'' ''abcdefghijklmnopqrstuvwxyz'') c of
        Some l \<Rightarrow> l
      | None \<Rightarrow> c)"

definition toLowerCase :: "string \<Rightarrow> string" where
  "toLowerCase s = map lowerChar s"

text \<open>
  The loop over the people of \<^verbatim>\<open>buildAlertsForSubscriber\<close>. The test
  \<^verbatim>\<open>p.ownerEmail && p.ownerEmail.toLowerCase() !== subscriberEmail.toLowerCase()\<close>
  evaluates its right operand only for a truthy \<^verbatim>\<open>ownerEmail\<close>, and calling
  \<^verbatim>\<open>toLowerCase\<close> on a \<^verbatim>\<open>subscriberEmail\<close> that is \<^verbatim>\<open>null\<close> or \<^verbatim>\<open>undefined\<close>
  (\<open>None\<close>) throws a TypeError, which ends the function.
\<close>

fun peopleLoop ::
  "today \<Rightarrow> string option \<Rightarrow> int \<Rightarrow> person list \<Rightarrow> alert list \<Rightarrow> error + alert list" where
  "peopleLoop now subscriberEmail maxDays [] alerts = Inr alerts"
| "peopleLoop now subscriberEmail maxDays (p # ps) alerts =
     (case ownerEmail p of
        None \<Rightarrow> peopleLoop now subscriberEmail maxDays ps (pushPerson now maxDays p alerts)
      | Some owner \<Rightarrow>
          if owner = [] then peopleLoop now subscriberEmail maxDays ps (pushPerson now maxDays p alerts)
          else (case subscriberEmail of
                  None \<Rightarrow> Inl TypeError
                | Some e \<Rightarrow>
                    if toLowerCase owner \<noteq> toLowerCase e
                    then peopleLoop now subscriberEmail maxDays ps alerts
                    else peopleLoop now subscriberEmail maxDays ps (pushPerson now maxDays p alerts)))"

definition buildAlertsForSubscriber ::
  "today \<Rightarrow> person list \<Rightarrow> string option \<Rightarrow> int \<Rightarrow> error + alert list" where
  "buildAlertsForSubscriber now people subscriberEmail maxDays =
     (case peopleLoop now subscriberEmail maxDays people (pushGlobals now maxDays []) of
        Inl e \<Rightarrow> Inl e
      | Inr alerts \<Rightarrow> Inr (sortByDays alerts))"

subsection \<open>Formatting\<close>

text \<open>The decimal numeral of an integer, as a template literal prints a number of days.\<close>

definition digitChar :: "nat \<Rightarrow> char" where
  "digitChar n = ''0123456789'' ! n"

fun showNat :: "nat \<Rightarrow> string" where
  "showNat n = (if n < 10 then [digitChar n] else showNat (n div 10) @ [digitChar (n mod 10)])"

declare showNat.simps [simp del]

definition showInt :: "int \<Rightarrow> string" where
  "showInt i = (if i < 0 then CHR ''-'' # showNat (nat (- i)) else showNat (nat i))"

text \<open>\<^verbatim>\<open>lines.join(sep)\<close>\<close>

fun join :: "string \<Rightarrow> string list \<Rightarrow> string" where
  "join sep [] = []"
| "join sep [l] = l"
| "join sep (l # l' # ls) = l @ sep @ join sep (l' # ls)"

definition formatLine :: "alert \<Rightarrow> string" where
  "formatLine a =
     (let w = (if days a = 0 then ''TODAY''
               else if days a \<le> 3 then ''In '' @ showInt (days a) @ '' day(s)''
               else ''In '' @ showInt (days a) @ '' days'')
      in w @ '' -- '' @ label a)"

definition formatAlertText :: "alert list \<Rightarrow> string" where
  "formatAlertText alerts =
     (if length alerts = 0 then [] else join [CHR 0x0A] (map formatLine alerts))"

subsection \<open>Sending one email\<close>

record email_config =
  serviceId :: "string option"
  templateId :: "string option"
  pubKey :: "string option"
  sender :: "string option"

text \<open>
  The JSON body of the request, without \<^verbatim>\<open>accessToken\<close> (a secret of the process
  environment, the same in every request).
\<close>

record request =
  service_id :: "string option"
  template_id :: "string option"
  user_id :: "string option"
  to_email :: "string option"
  from_name :: string
  event_list :: string

text \<open>What \<^verbatim>\<open>fetch\<close> comes back with: a response with its status and body, or a rejection.\<close>

datatype fetch_result = Response int string | Rejected

text \<open>\<^verbatim>\<open>response.ok\<close>: the status is in the range 200..299.\<close>

fun delivered :: "fetch_result \<Rightarrow> bool" where
  "delivered (Response status body) = (200 \<le> status \<and> status \<le> 299)"
| "delivered Rejected = False"

text \<open>What the run does to the outside: requests posted (with their answers) and pauses, in milliseconds.\<close>

datatype event = Post request fetch_result | Sleep nat

fun requests :: "event list \<Rightarrow> request list" where
  "requests [] = []"
| "requests (Post req r # evs) = req # requests evs"
| "requests (Sleep ms # evs) = requests evs"

definition emailRequest :: "string option \<Rightarrow> string \<Rightarrow> email_config \<Rightarrow> request" where
  "emailRequest toEmail eventListText cfg =
     \<lparr>service_id = serviceId cfg, template_id = templateId cfg, user_id = pubKey cfg,
      to_email = toEmail,
      from_name = (case sender cfg of Some s \<Rightarrow> if s \<noteq> [] then s else ''Date Reminder''
                                    | None \<Rightarrow> ''Date Reminder''),
      event_list = eventListText\<rparr>"

text \<open>
  \<^verbatim>\<open>sendEmailViaREST\<close> posts one request; the endpoint's answer to the k-th request of the
  run (counting from 0) is \<open>provider k\<close>. It throws when \<^verbatim>\<open>fetch\<close> rejects and when the
  response is not ok.
\<close>

definition sendEmailViaREST ::
  "(nat \<Rightarrow> fetch_result) \<Rightarrow> string option \<Rightarrow> string \<Rightarrow> email_config \<Rightarrow> event list
     \<Rightarrow> (error + unit) \<times> event list" where
  "sendEmailViaREST provider toEmail eventListText cfg evs =
     (let response = provider (length (requests evs));
          evs' = evs @ [Post (emailRequest toEmail eventListText cfg) response]
      in case response of
           Rejected \<Rightarrow> (Inl FetchError, evs')
         | Response status body \<Rightarrow>
             if \<not> (200 \<le> status \<and> status \<le> 299) then (Inl (EmailJSError status body), evs')
             else (Inr (), evs'))"

subsection \<open>The run\<close>

record run_state =
  ok :: nat
  fail :: nat
  skipped :: nat
  trace :: "event list"

text \<open>
  The loop over the subscribers of \<^verbatim>\<open>main\<close>. The call of \<^verbatim>\<open>buildAlertsForSubscriber\<close>
  stands outside the \<^verbatim>\<open>try\<close>: what it throws ends the loop (and \<^verbatim>\<open>main\<close>), with the
  state reached so far. The send and the pause of 1100 ms after it stand inside the
  \<^verbatim>\<open>try\<close>; the \<^verbatim>\<open>catch\<close> counts the failure and the loop goes on.
\<close>

fun subscriberLoop ::
  "today \<Rightarrow> person list \<Rightarrow> email_config \<Rightarrow> (nat \<Rightarrow> fetch_result) \<Rightarrow> subscriber list
     \<Rightarrow> run_state \<Rightarrow> error option \<times> run_state" where
  "subscriberLoop now people cfg provider [] s = (None, s)"
| "subscriberLoop now people cfg provider (sub # subs) s =
     (case buildAlertsForSubscriber now people (sub_email sub) 7 of
        Inl e \<Rightarrow> (Some e, s)
      | Inr alerts \<Rightarrow>
          if length alerts = 0
          then subscriberLoop now people cfg provider subs (s\<lparr>skipped := skipped s + 1\<rparr>)
          else
            (let alertText = formatAlertText alerts in
             case sendEmailViaREST provider (sub_email sub) alertText cfg (trace s) of
               (Inr u, evs) \<Rightarrow>
                 subscriberLoop now people cfg provider subs
                   (s\<lparr>ok := ok s + 1, trace := evs @ [Sleep 1100]\<rparr>)
             | (Inl e, evs) \<Rightarrow>
                 subscriberLoop now people cfg provider subs
                   (s\<lparr>fail := fail s + 1, trace := evs\<rparr>)))"

text \<open>
  The three reads of the store, each of which may reject; \<open>Inr None\<close> for the configuration
  is a snapshot that does not exist.
\<close>

record firestore =
  emailConfig :: "error + email_config option"
  wives :: "error + person list"
  subscribers :: "error + subscriber list"

text \<open>How \<^verbatim>\<open>main\<close> ends: it returns, it calls \<^verbatim>\<open>process.exit\<close>, or it throws.\<close>

datatype completion = Returned | Exited int | Threw error

definition start :: run_state where
  "start = \<lparr>ok = 0, fail = 0, skipped = 0, trace = []\<rparr>"

definition main :: "today \<Rightarrow> firestore \<Rightarrow> (nat \<Rightarrow> fetch_result) \<Rightarrow> completion \<times> run_state" where
  "main now db provider =
     (case emailConfig db of
        Inl e \<Rightarrow> (Threw e, start)
      | Inr None \<Rightarrow> (Returned, start)
      | Inr (Some cfg) \<Rightarrow>
          if \<not> truthy (serviceId cfg) \<or> \<not> truthy (templateId cfg) \<or> \<not> truthy (pubKey cfg)
          then (Returned, start)
          else
            (case wives db of
               Inl e \<Rightarrow> (Threw e, start)
             | Inr people \<Rightarrow>
                 (case subscribers db of
                    Inl e \<Rightarrow> (Threw e, start)
                  | Inr subs \<Rightarrow>
                      if length subs = 0 then (Returned, start)
                      else
                        (case subscriberLoop now people cfg provider subs start of
                           (Some e, s) \<Rightarrow> (Threw e, s)
                         | (None, s) \<Rightarrow> if fail s > 0 then (Exited 1, s) else (Returned, s)))))"

text \<open>
  The exit status of the process: \<^verbatim>\<open>main().catch(e => process.exit(1))\<close>, and status 0
  when \<^verbatim>\<open>main\<close> returns.
\<close>

fun exitStatus :: "completion \<Rightarrow> int" where
  "exitStatus Returned = 0"
| "exitStatus (Exited code) = code"
| "exitStatus (Threw e) = 1"

subsection \<open>Notions the statements below are written in\<close>

text \<open>The alerts of the holidays, and of one person, taken alone.\<close>

definition globalAlerts :: "today \<Rightarrow> int \<Rightarrow> alert list" where
  "globalAlerts now maxDays = pushGlobals now maxDays []"

definition personAlerts :: "today \<Rightarrow> int \<Rightarrow> person \<Rightarrow> alert list" where
  "personAlerts now maxDays p = pushPerson now maxDays p []"

text \<open>
  A person is hidden from a subscriber email when the person has a non-empty
  \<^verbatim>\<open>ownerEmail\<close> whose lower-cased value differs from the lower-cased email.
\<close>

definition hiddenFrom :: "string \<Rightarrow> person \<Rightarrow> bool" where
  "hiddenFrom e p =
     (case ownerEmail p of
        None \<Rightarrow> False
      | Some owner \<Rightarrow> owner \<noteq> [] \<and> toLowerCase owner \<noteq> toLowerCase e)"

definition visiblePeople :: "string option \<Rightarrow> person list \<Rightarrow> person list" where
  "visiblePeople subscriberEmail people =
     (case subscriberEmail of
        None \<Rightarrow> people
      | Some e \<Rightarrow> filter (\<lambda>p. \<not> hiddenFrom e p) people)"

text \<open>
  The occurrence of a month and day (the month counted from 1) in year \<open>y\<close>, as a day
  number; a day past the end of the month counts on into the next month.
\<close>

definition occurrence :: "int \<Rightarrow> int \<Rightarrow> int \<Rightarrow> int" where
  "occurrence y month day = MakeDay y (month - 1) day"

text \<open>The line of one alert and the urgency in it, in the words of the specification.\<close>

definition spec_urgency :: "int \<Rightarrow> string" where
  "spec_urgency d =
     (if d = 0 then ''TODAY''
      else if 1 \<le> d \<and> d \<le> 3 then ''In '' @ showInt d @ '' day(s)''
      else ''In '' @ showInt d @ '' days'')"

definition spec_line :: "alert \<Rightarrow> string" where
  "spec_line a = spec_urgency (days a) @ '' -- '' @ label a"

text \<open>A date field: a string of decimal digits with its value.\<close>

definition field :: "string \<Rightarrow> int \<Rightarrow> bool" where
  "field s v = (s \<noteq> [] \<and> Number s = Some v)"

text \<open>A send that failed: a request that was posted and not delivered.\<close>

fun failedSend :: "event \<Rightarrow> bool" where
  "failedSend (Post req r) = (\<not> delivered r)"
| "failedSend (Sleep ms) = False"

fun deliveredSend :: "event \<Rightarrow> bool" where
  "deliveredSend (Post req r) = delivered r"
| "deliveredSend (Sleep ms) = False"

text \<open>The alerts of a subscriber in the run, and whether there are any.\<close>

definition alertsOf :: "today \<Rightarrow> person list \<Rightarrow> subscriber \<Rightarrow> alert list" where
  "alertsOf now people sub =
     (case buildAlertsForSubscriber now people (sub_email sub) 7 of
        Inl e \<Rightarrow> []
      | Inr alerts \<Rightarrow> alerts)"

text \<open>The request that the run posts for a subscriber with alerts.\<close>

definition requestFor :: "today \<Rightarrow> person list \<Rightarrow> email_config \<Rightarrow> subscriber \<Rightarrow> request" where
  "requestFor now people cfg sub =
     emailRequest (sub_email sub) (formatAlertText (alertsOf now people sub)) cfg"

text \<open>A configuration document with its three required fields.\<close>

definition complete :: "email_config \<Rightarrow> bool" where
  "complete cfg = (truthy (serviceId cfg) \<and> truthy (templateId cfg) \<and> truthy (pubKey cfg))"

subsection \<open>Sample data\<close>

text \<open>
  The day, the people and the subscribers of the end-to-end scenario of the specification:
  20 December 2025, five days before Christmas.
\<close>

definition dec20 :: today where
  "dec20 = \<lparr>getFullYear = 2025, getMonth = 11, getDate = 20\<rparr>"

definition ann :: person where
  "ann = \<lparr>name = ''Ann'', birthday = Some ''12-25'', anniversary = None, custom = None,
           ownerEmail = Some ''h@x.com''\<rparr>"

definition cfg0 :: email_config where
  "cfg0 = \<lparr>serviceId = Some ''service'', templateId = Some ''template'', pubKey = Some ''key'',
            sender = None\<rparr>"

definition husband :: subscriber where
  "husband = \<lparr>sub_name = ''H'', sub_email = Some ''h@x.com''\<rparr>"

definition other :: subscriber where
  "other = \<lparr>sub_name = ''O'', sub_email = Some ''other@x.com''\<rparr>"

text \<open>An endpoint that answers the first request of the run with status 500 and the rest with 200.\<close>

definition failFirst :: "nat \<Rightarrow> fetch_result" where
  "failFirst k = (if k = 0 then Response 500 ''Internal Server Error'' else Response 200 ''OK'')"

definition bea :: person where
  "bea = \<lparr>name = ''Bea'', birthday = None, anniversary = Some ''12-24'',
           custom = Some [\<lparr>c_label = ''Trip'', c_date = ''2020-12-27''\<rparr>], ownerEmail = None\<rparr>"

text \<open>
  A run on 1 June 2025, when no holiday is near: three subscribers, of whom the first and
  the third own a person with a date in the week, and the endpoint fails the first request.
\<close>

definition jun1 :: today where
  "jun1 = \<lparr>getFullYear = 2025, getMonth = 5, getDate = 1\<rparr>"

definition cy :: person where
  "cy = \<lparr>name = ''Cy'', birthday = Some ''06-03'', anniversary = None, custom = None,
          ownerEmail = Some ''H@X.com''\<rparr>"

definition dee :: person where
  "dee = \<lparr>name = ''Dee'', birthday = None, anniversary = Some ''2010-06-05'', custom = None,
           ownerEmail = Some ''t@x.com''\<rparr>"

definition third :: subscriber where
  "third = \<lparr>sub_name = ''T'', sub_email = Some ''t@x.com''\<rparr>"

definition db0 :: firestore where
  "db0 = \<lparr>emailConfig = Inr (Some cfg0), wives = Inr [cy, dee],
           subscribers = Inr [husband, other, third]\<rparr>"

section \<open>Calendar arithmetic\<close>

lemma div_succ:
  fixes a k :: int
  assumes "0 < k"
  shows "(a + 1) div k = a div k + (if (a + 1) mod k = 0 then 1 else 0)"
proof (cases "a mod k = k - 1")
  case True
  define q where "q = a div k"
  define r where "r = a mod k"
  have "a = k * q + r" by (simp add: q_def r_def)
  moreover have "r = k - 1" using True by (simp add: r_def)
  ultimately have "a + 1 = k * (q + 1)" by (simp add: algebra_simps)
  then have "(a + 1) div k = q + 1" "(a + 1) mod k = 0"
    using assms by simp_all
  then show ?thesis by (simp add: q_def)
next
  case False
  have r: "0 \<le> a mod k" "a mod k < k" using assms by simp_all
  have "a + 1 = k * (a div k) + (a mod k + 1)"
    using mult_div_mod_eq [of k a] by simp
  moreover have "0 \<le> a mod k + 1" "a mod k + 1 < k" using r False by linarith+
  ultimately have "(a + 1) div k = a div k" "(a + 1) mod k = a mod k + 1"
    by (metis int_div_pos_eq, metis int_mod_pos_eq)
  with r show ?thesis by simp
qed

lemma mod_shift: "((y::int) - k * c) mod k = y mod k"
  by (metis mod_mult_self2 uminus_add_conv_diff add.commute mult_minus_right)

lemma leap_step:
  fixes y :: int
  shows "(y - 1968) div 4 = (y - 1969) div 4 + (if y mod 4 = 0 then 1 else 0)"
    and "(y - 1900) div 100 = (y - 1901) div 100 + (if y mod 100 = 0 then 1 else 0)"
    and "(y - 1600) div 400 = (y - 1601) div 400 + (if y mod 400 = 0 then 1 else 0)"
proof -
  have "(y - 1968) mod 4 = y mod 4" using mod_shift [of y 4 492] by simp
  then show "(y - 1968) div 4 = (y - 1969) div 4 + (if y mod 4 = 0 then 1 else 0)"
    using div_succ [of 4 "y - 1969"] by simp
  have "(y - 1900) mod 100 = y mod 100" using mod_shift [of y 100 19] by simp
  then show "(y - 1900) div 100 = (y - 1901) div 100 + (if y mod 100 = 0 then 1 else 0)"
    using div_succ [of 100 "y - 1901"] by simp
  have "(y - 1600) mod 400 = y mod 400" using mod_shift [of y 400 4] by simp
  then show "(y - 1600) div 400 = (y - 1601) div 400 + (if y mod 400 = 0 then 1 else 0)"
    using div_succ [of 400 "y - 1601"] by simp
qed

lemma leap_divides:
  fixes y :: int
  shows "y mod 4 \<noteq> 0 \<Longrightarrow> y mod 100 \<noteq> 0" and "y mod 100 \<noteq> 0 \<Longrightarrow> y mod 400 \<noteq> 0"
proof -
  have "(4::int) dvd 100" "(100::int) dvd 400" by simp_all
  then show "y mod 4 \<noteq> 0 \<Longrightarrow> y mod 100 \<noteq> 0" "y mod 100 \<noteq> 0 \<Longrightarrow> y mod 400 \<noteq> 0"
    by (metis dvd_trans mod_eq_0_iff_dvd)+
qed

lemma DayFromYear_next: "DayFromYear (y + 1) = DayFromYear y + DaysInYear y"
proof -
  define l4 :: int where "l4 = (if y mod 4 = 0 then 1 else 0)"
  define l100 :: int where "l100 = (if y mod 100 = 0 then 1 else 0)"
  define l400 :: int where "l400 = (if y mod 400 = 0 then 1 else 0)"
  have s4: "(y - 1968) div 4 = (y - 1969) div 4 + l4"
    unfolding l4_def by (rule leap_step(1))
  have s100: "(y - 1900) div 100 = (y - 1901) div 100 + l100"
    unfolding l100_def by (rule leap_step(2))
  have s400: "(y - 1600) div 400 = (y - 1601) div 400 + l400"
    unfolding l400_def by (rule leap_step(3))
  have "DayFromYear (y + 1) =
      365 * (y - 1969) + (y - 1968) div 4 - (y - 1900) div 100 + (y - 1600) div 400"
    by (simp add: DayFromYear_def)
  also have "\<dots> = DayFromYear y + (365 + l4 - l100 + l400)"
    unfolding s4 s100 s400 DayFromYear_def by simp
  also have "365 + l4 - l100 + l400 = DaysInYear y"
  proof (cases "y mod 4 = 0")
    case False
    then have n100: "y mod 100 \<noteq> 0" by (rule leap_divides(1))
    then have "y mod 400 \<noteq> 0" by (rule leap_divides(2))
    with n100 have "y mod 100 \<noteq> 0" "y mod 400 \<noteq> 0" by simp_all
    with False show ?thesis
      by (simp add: l4_def l100_def l400_def DaysInYear_def InLeapYear_def)
  next
    case True
    show ?thesis
    proof (cases "y mod 100 = 0")
      case False
      then have "y mod 400 \<noteq> 0" by (rule leap_divides(2))
      with True False show ?thesis
        by (simp add: l4_def l100_def l400_def DaysInYear_def InLeapYear_def)
    next
      case h: True
      with True show ?thesis
        by (simp add: l4_def l100_def l400_def DaysInYear_def InLeapYear_def)
    qed
  qed
  finally show ?thesis .
qed

lemma DayFromYear_mono: "y \<le> y' \<Longrightarrow> DayFromYear y \<le> DayFromYear y'"
proof (induction y' rule: int_ge_induct)
  case base
  show ?case by simp
next
  case (step i)
  have "DayFromYear i \<le> DayFromYear (i + 1)"
    by (simp add: DayFromYear_next DaysInYear_def)
  with step show ?case by linarith
qed

lemma DayFromYear_1970: "DayFromYear 1970 = 0"
  by (simp add: DayFromYear_def)

lemma DayFromYear_275759: "DayFromYear 275759 = 99999379"
  by (simp add: DayFromYear_def)

lemma DayFromYear_range:
  "1970 \<le> y \<Longrightarrow> y \<le> 275759 \<Longrightarrow> 0 \<le> DayFromYear y \<and> DayFromYear y \<le> 99999379"
  using DayFromYear_mono [of 1970 y] DayFromYear_mono [of y 275759]
  by (simp add: DayFromYear_1970 DayFromYear_275759)


lemma monthStart_bounds:
  "0 \<le> mn \<Longrightarrow> mn \<le> 11 \<Longrightarrow> 0 \<le> monthStart y mn \<and> monthStart y mn + DaysInMonth y mn \<le> DaysInYear y"
  unfolding monthStart_def DaysInMonth_def DaysInYear_def by (simp add: Let_def)

lemma monthStart_upper: "monthStart y mn \<le> 335"
  unfolding monthStart_def by (simp add: Let_def)

lemma MakeDay_in_year:
  "0 \<le> m \<Longrightarrow> m \<le> 11 \<Longrightarrow> MakeDay y m d = DayFromYear y + monthStart y m + d - 1"
  unfolding MakeDay_def by (simp add: Let_def)

lemma todayMidnight_range:
  assumes "valid_today t"
  shows "DayFromYear (getFullYear t) \<le> todayMidnight t"
    and "todayMidnight t < DayFromYear (getFullYear t + 1)"
proof -
  from assms have m: "0 \<le> getMonth t" "getMonth t \<le> 11"
    and d: "1 \<le> getDate t" "getDate t \<le> DaysInMonth (getFullYear t) (getMonth t)"
    by (simp_all add: valid_today_def)
  have eq: "todayMidnight t = DayFromYear (getFullYear t) + monthStart (getFullYear t) (getMonth t) + getDate t - 1"
    using m by (simp add: todayMidnight_def MakeDay_in_year)
  from monthStart_bounds [OF m, of "getFullYear t"] d eq
  show "DayFromYear (getFullYear t) \<le> todayMidnight t" by linarith
  from monthStart_bounds [OF m, of "getFullYear t"] d eq
  show "todayMidnight t < DayFromYear (getFullYear t + 1)"
    by (simp add: DayFromYear_next)
qed

lemma newDate_this_year:
  assumes "1970 \<le> y" "y \<le> 275759" "1 \<le> month" "month \<le> 12" "1 \<le> day" "day \<le> 31"
  shows "newDate y (month - 1) day = Some (MakeDay y (month - 1) day)"
    and "DayFromYear y \<le> MakeDay y (month - 1) day"
proof -
  have eq: "MakeDay y (month - 1) day = DayFromYear y + monthStart y (month - 1) + day - 1"
    using assms by (simp add: MakeDay_in_year)
  have ms: "0 \<le> monthStart y (month - 1)" "monthStart y (month - 1) \<le> 335"
    using monthStart_bounds [of "month - 1" y] monthStart_upper [of y "month - 1"] assms by simp_all
  from DayFromYear_range [of y] assms have r: "0 \<le> DayFromYear y" "DayFromYear y \<le> 99999379"
    by simp_all
  from eq ms r assms show "DayFromYear y \<le> MakeDay y (month - 1) day" by linarith
  from eq ms r assms have "\<bar>MakeDay y (month - 1) day\<bar> \<le> 100000000" by linarith
  with assms show "newDate y (month - 1) day = Some (MakeDay y (month - 1) day)"
    by (simp add: newDate_def Let_def)
qed

lemma daysUntilFixed_valid:
  assumes t: "valid_today t" and md: "1 \<le> month" "month \<le> 12" "1 \<le> day" "day \<le> 31"
  shows "\<exists>n. daysUntilFixed t month day = Some n \<and> 0 \<le> n"
proof -
  let ?y = "getFullYear t"
  from t have y: "1970 \<le> ?y" "?y \<le> 275758" by (simp_all add: valid_today_def)
  have d1: "newDate ?y (month - 1) day = Some (MakeDay ?y (month - 1) day)"
    using newDate_this_year(1) [of ?y month day] y md by simp
  have d2: "newDate (?y + 1) (month - 1) day = Some (MakeDay (?y + 1) (month - 1) day)"
    and ge: "DayFromYear (?y + 1) \<le> MakeDay (?y + 1) (month - 1) day"
    using newDate_this_year [of "?y + 1" month day] y md by simp_all
  from todayMidnight_range(2) [OF t] ge
  have "todayMidnight t \<le> MakeDay (?y + 1) (month - 1) day" by linarith
  then show ?thesis
    by (simp add: daysUntilFixed_def Let_def d1 d2)
qed

lemma daysUntilFixed_same_day:
  assumes t: "valid_today t"
  shows "daysUntilFixed t (getMonth t + 1) (getDate t) = Some 0"
proof -
  let ?y = "getFullYear t"
  from t have y: "1970 \<le> ?y" "?y \<le> 275758" by (simp_all add: valid_today_def)
  have "\<bar>todayMidnight t\<bar> \<le> 100000000"
    using todayMidnight_range [OF t] DayFromYear_range [of ?y] DayFromYear_range [of "?y + 1"] y
    by simp
  then have "newDate ?y (getMonth t) (getDate t) = Some (todayMidnight t)"
    using y by (simp add: newDate_def todayMidnight_def Let_def)
  then show ?thesis
    by (simp add: daysUntilFixed_def Let_def)
qed

text \<open>The occurrences of a month and day, year by year, and the one that comes next.\<close>

lemma occurrence_eq:
  "1 \<le> month \<Longrightarrow> month \<le> 12 \<Longrightarrow>
     occurrence y month day = DayFromYear y + monthStart y (month - 1) + day - 1"
  by (simp add: occurrence_def MakeDay_in_year)

lemma monthStart_room: "0 \<le> mn \<Longrightarrow> mn \<le> 11 \<Longrightarrow> monthStart y mn + 31 \<le> DaysInYear y"
  unfolding monthStart_def DaysInYear_def by (simp add: Let_def)

lemma occurrence_in_year:
  assumes "1 \<le> month" "month \<le> 12" "1 \<le> day" "day \<le> 31"
  shows "DayFromYear y \<le> occurrence y month day"
    and "occurrence y month day < DayFromYear (y + 1)"
proof -
  have ms: "0 \<le> monthStart y (month - 1)" "monthStart y (month - 1) + 31 \<le> DaysInYear y"
    using monthStart_bounds [of "month - 1" y] monthStart_room [of "month - 1" y] assms by simp_all
  from ms assms show "DayFromYear y \<le> occurrence y month day"
    by (simp add: occurrence_eq)
  from ms assms show "occurrence y month day < DayFromYear (y + 1)"
    by (simp add: occurrence_eq DayFromYear_next)
qed

lemma leap_not_next: "InLeapYear y \<Longrightarrow> \<not> InLeapYear (y + 1)"
proof -
  have "y mod 4 = 0 \<Longrightarrow> (y + 1) mod 4 \<noteq> 0" by presburger
  then show "InLeapYear y \<Longrightarrow> \<not> InLeapYear (y + 1)"
    by (simp add: InLeapYear_def)
qed

lemma monthStart_next:
  assumes "0 \<le> mn" "mn \<le> 11"
  shows "364 \<le> DaysInYear y + monthStart (y + 1) mn - monthStart y mn"
    and "DaysInYear y + monthStart (y + 1) mn - monthStart y mn \<le> 366"
proof -
  define a where "a = InLeapYear y"
  define b where "b = InLeapYear (y + 1)"
  have nb: "a \<Longrightarrow> \<not> b" unfolding a_def b_def by (rule leap_not_next)
  show "364 \<le> DaysInYear y + monthStart (y + 1) mn - monthStart y mn"
    using nb unfolding monthStart_def DaysInYear_def a_def [symmetric] b_def [symmetric]
    by (cases a; cases b) (simp_all add: Let_def)
  show "DaysInYear y + monthStart (y + 1) mn - monthStart y mn \<le> 366"
    using nb unfolding monthStart_def DaysInYear_def a_def [symmetric] b_def [symmetric]
    by (cases a; cases b) (simp_all add: Let_def)
qed

lemma occurrence_step:
  assumes "1 \<le> month" "month \<le> 12"
  shows "occurrence y month day < occurrence (y + 1) month day"
    and "occurrence (y + 1) month day \<le> occurrence y month day + 366"
  using monthStart_next [of "month - 1" y] assms
  by (simp_all add: occurrence_eq DayFromYear_next)

lemma occurrence_mono:
  assumes "1 \<le> month" "month \<le> 12"
  shows "y \<le> y' \<Longrightarrow> occurrence y month day \<le> occurrence y' month day"
proof (induction y' rule: int_ge_induct)
  case base
  show ?case by simp
next
  case (step i)
  with occurrence_step(1) [OF assms, of i day] show ?case by linarith
qed

lemma daysUntilFixed_roll:
  assumes t: "valid_today t" and md: "1 \<le> month" "month \<le> 12" "1 \<le> day" "day \<le> 31"
  shows "daysUntilFixed t month day =
     Some (if todayMidnight t \<le> occurrence (getFullYear t) month day
           then occurrence (getFullYear t) month day - todayMidnight t
           else occurrence (getFullYear t + 1) month day - todayMidnight t)"
proof -
  let ?y = "getFullYear t"
  from t have y: "1970 \<le> ?y" "?y \<le> 275758" by (simp_all add: valid_today_def)
  have d1: "newDate ?y (month - 1) day = Some (occurrence ?y month day)"
    using newDate_this_year(1) [of ?y month day] y md by (simp add: occurrence_def)
  have d2: "newDate (?y + 1) (month - 1) day = Some (occurrence (?y + 1) month day)"
    using newDate_this_year(1) [of "?y + 1" month day] y md by (simp add: occurrence_def)
  show ?thesis
    by (simp add: daysUntilFixed_def Let_def d1 d2)
qed

lemma daysUntilFixed_next:
  assumes t: "valid_today t" and md: "1 \<le> month" "month \<le> 12" "1 \<le> day" "day \<le> 31"
    and n: "daysUntilFixed t month day = Some n"
  shows "0 \<le> n" "n \<le> 365"
    and "\<exists>y. todayMidnight t + n = occurrence y month day"
    and "\<forall>y. todayMidnight t \<le> occurrence y month day \<longrightarrow>
             todayMidnight t + n \<le> occurrence y month day"
proof -
  let ?y = "getFullYear t"
  let ?t = "todayMidnight t"
  note r = todayMidnight_range [OF t]
  note o = occurrence_in_year [OF md]
  note s = occurrence_step [OF md(1,2)]
  have least: "?t + n \<le> occurrence y month day" if "?t \<le> occurrence y month day" for y
  proof (cases "?t \<le> occurrence ?y month day")
    case True
    with n have eq: "?t + n = occurrence ?y month day"
      by (simp add: daysUntilFixed_roll [OF t md])
    have "?y \<le> y"
    proof (rule ccontr)
      assume "\<not> ?y \<le> y"
      then have "y + 1 \<le> ?y" by simp
      then have "DayFromYear (y + 1) \<le> DayFromYear ?y" by (rule DayFromYear_mono)
      with o(2) [of y] r(1) that show False by linarith
    qed
    then have "occurrence ?y month day \<le> occurrence y month day"
      by (rule occurrence_mono [OF md(1,2)])
    with eq show ?thesis by simp
  next
    case False
    with n have eq: "?t + n = occurrence (?y + 1) month day"
      by (simp add: daysUntilFixed_roll [OF t md])
    have "?y + 1 \<le> y"
    proof (rule ccontr)
      assume "\<not> ?y + 1 \<le> y"
      then have "y \<le> ?y" by simp
      then have "occurrence y month day \<le> occurrence ?y month day"
        by (rule occurrence_mono [OF md(1,2)])
      with False that show False by linarith
    qed
    then have "occurrence (?y + 1) month day \<le> occurrence y month day"
      by (rule occurrence_mono [OF md(1,2)])
    with eq show ?thesis by simp
  qed
  then show "\<forall>y. ?t \<le> occurrence y month day \<longrightarrow> ?t + n \<le> occurrence y month day"
    by blast
  show "0 \<le> n" "n \<le> 365" "\<exists>y. ?t + n = occurrence y month day"
  proof -
    have "0 \<le> n \<and> n \<le> 365 \<and> (\<exists>y. ?t + n = occurrence y month day)"
    proof (cases "?t \<le> occurrence ?y month day")
      case True
      with n have eq: "?t + n = occurrence ?y month day"
        by (simp add: daysUntilFixed_roll [OF t md])
      have "DaysInYear ?y \<le> 366" by (simp add: DaysInYear_def)
      with eq True o(2) [of ?y] r(1) have "0 \<le> n" "n \<le> 365"
        by (simp_all add: DayFromYear_next)
      with eq show ?thesis by blast
    next
      case False
      with n have eq: "?t + n = occurrence (?y + 1) month day"
        by (simp add: daysUntilFixed_roll [OF t md])
      from eq False o(1) [of "?y + 1"] r(2) s(2) [of ?y day] have "0 \<le> n" "n \<le> 365"
        by linarith+
      with eq show ?thesis by blast
    qed
    then show "0 \<le> n" "n \<le> 365" "\<exists>y. ?t + n = occurrence y month day"
      by simp_all
  qed
qed

section \<open>Date strings\<close>

lemma split_no_sep: "sep \<notin> set s \<Longrightarrow> split sep s = [s]"
  by (induction s) auto

lemma split_field: "sep \<notin> set s \<Longrightarrow> split sep (s @ sep # r) = s # split sep r"
  by (induction s) (auto split: list.splits)

lemma digitValue_hyphen: "digitValue CHR ''-'' = None"
  by (simp add: digitValue_def)

lemma digitsValue_no_hyphen: "digitsValue acc s = Some v \<Longrightarrow> CHR ''-'' \<notin> set s"
  by (induction s arbitrary: acc) (auto simp: digitValue_hyphen split: option.splits)

lemma field_no_hyphen: "field s v \<Longrightarrow> CHR ''-'' \<notin> set s"
  by (auto simp: field_def Number_def dest: digitsValue_no_hyphen)

lemma daysUntil_two_fields:
  assumes "CHR ''-'' \<notin> set mm" "CHR ''-'' \<notin> set dd"
  shows "daysUntil t (mm @ CHR ''-'' # dd) =
    (let dt = newDateN (getFullYear t) (map_option (\<lambda>m. m - 1) (Number mm)) (Number dd);
         dt = (if dateBefore dt (todayMidnight t)
               then newDateN (getFullYear t + 1) (map_option (\<lambda>m. m - 1) (Number mm)) (Number dd) else dt)
     in map_option (\<lambda>dt. dt - todayMidnight t) dt)"
  using assms by (simp add: daysUntil_def split_field split_no_sep part_def Let_def)

lemma daysUntil_three_fields:
  assumes "CHR ''-'' \<notin> set yyyy" "CHR ''-'' \<notin> set mm" "CHR ''-'' \<notin> set dd"
  shows "daysUntil t (yyyy @ CHR ''-'' # mm @ CHR ''-'' # dd) = daysUntil t (mm @ CHR ''-'' # dd)"
  using assms by (simp add: daysUntil_def split_field split_no_sep part_def Let_def)

lemma daysUntil_is_daysUntilFixed:
  assumes "field mm m" "field dd d"
  shows "daysUntil t (mm @ CHR ''-'' # dd) = daysUntilFixed t m d"
proof -
  have "CHR ''-'' \<notin> set mm" "CHR ''-'' \<notin> set dd"
    using assms by (simp_all add: field_no_hyphen)
  moreover have "Number mm = Some m" "Number dd = Some d"
    using assms by (simp_all add: field_def)
  ultimately show ?thesis
    by (simp add: daysUntil_two_fields daysUntilFixed_def Let_def)
qed

text \<open>Facts about the sample data.\<close>

lemma valid_dec20: "valid_today dec20"
  by (simp add: valid_today_def DaysInMonth_def dec20_def)

lemma occurrences_dec20:
  "todayMidnight dec20 = 20442"
  "occurrence 2025 2 14 = 20133" "occurrence 2026 2 14 = 20498"
  "occurrence 2025 12 25 = 20447" "occurrence 2025 12 20 = 20442"
  by (simp_all add: occurrence_def todayMidnight_def MakeDay_def DayFromYear_def monthStart_def
      InLeapYear_def dec20_def)

lemma field_literals: "field ''12'' 12" "field ''25'' 25"
  by (simp_all add: field_def Number_def digitValue_def)

section \<open>The alert builders as list expressions\<close>

lemma pushIfDue_append: "pushIfDue maxDays l d alerts = alerts @ pushIfDue maxDays l d []"
  by (cases d) simp_all

lemma foldl_push_append:
  assumes "\<And>x acc. step acc x = acc @ step [] x"
  shows "foldl step acc xs = acc @ foldl step [] xs"
proof (induction xs arbitrary: acc)
  case Nil
  show ?case by simp
next
  case (Cons x xs)
  have "foldl step (acc @ step [] x) xs = (acc @ step [] x) @ foldl step [] xs"
    by (rule Cons.IH)
  moreover have "foldl step (step [] x) xs = step [] x @ foldl step [] xs"
    by (rule Cons.IH)
  ultimately show ?case
    using assms [of acc x] by simp
qed

lemma pushPerson_append: "pushPerson now maxDays p alerts = alerts @ personAlerts now maxDays p"
  unfolding pushPerson_def personAlerts_def
  by (rule foldl_push_append) (rule pushIfDue_append)

lemma people_foldl:
  "foldl (\<lambda>alerts p. pushPerson now maxDays p alerts) alerts people =
     alerts @ concat (map (personAlerts now maxDays) people)"
  by (induction people arbitrary: alerts) (simp_all add: pushPerson_append)

lemma buildAlerts_eq:
  "buildAlerts now people maxDays =
     sortByDays (globalAlerts now maxDays @ concat (map (personAlerts now maxDays) people))"
  by (simp add: buildAlerts_def people_foldl globalAlerts_def)

lemma peopleLoop_Some:
  "peopleLoop now (Some e) maxDays people alerts =
     Inr (alerts @ concat (map (personAlerts now maxDays) (filter (\<lambda>p. \<not> hiddenFrom e p) people)))"
  by (induction people arbitrary: alerts)
     (simp_all add: hiddenFrom_def pushPerson_append split: option.splits)

lemma peopleLoop_None:
  "peopleLoop now None maxDays people alerts =
     (if \<exists>p \<in> set people. truthy (ownerEmail p) then Inl TypeError
      else Inr (alerts @ concat (map (personAlerts now maxDays) people)))"
proof (induction people arbitrary: alerts)
  case Nil
  show ?case by simp
next
  case (Cons p ps)
  show ?case
  proof (cases "ownerEmail p")
    case None
    then show ?thesis by (simp add: Cons.IH pushPerson_append)
  next
    case (Some owner)
    then show ?thesis by (cases "owner = []") (simp_all add: Cons.IH pushPerson_append)
  qed
qed

lemma peopleLoop_unowned:
  "\<forall>p \<in> set people. \<not> truthy (ownerEmail p) \<Longrightarrow>
     peopleLoop now subscriberEmail maxDays people alerts =
       Inr (foldl (\<lambda>alerts p. pushPerson now maxDays p alerts) alerts people)"
proof (induction people arbitrary: alerts)
  case Nil
  show ?case by simp
next
  case (Cons p ps)
  from Cons.prems have p: "\<not> truthy (ownerEmail p)" and ps: "\<forall>p \<in> set ps. \<not> truthy (ownerEmail p)"
    by simp_all
  from p show ?case
    by (cases "ownerEmail p") (simp_all add: Cons.IH [OF ps])
qed

lemma buildAlertsForSubscriber_Some:
  "buildAlertsForSubscriber now people (Some e) maxDays =
     Inr (sortByDays (globalAlerts now maxDays @
       concat (map (personAlerts now maxDays) (filter (\<lambda>p. \<not> hiddenFrom e p) people))))"
  by (simp add: buildAlertsForSubscriber_def peopleLoop_Some globalAlerts_def)

lemma buildAlertsForSubscriber_Inr:
  assumes "buildAlertsForSubscriber now people subscriberEmail maxDays = Inr alerts"
  shows "alerts = sortByDays (globalAlerts now maxDays @
           concat (map (personAlerts now maxDays) (visiblePeople subscriberEmail people)))"
proof (cases subscriberEmail)
  case None
  with assms show ?thesis
    by (simp add: buildAlertsForSubscriber_def peopleLoop_None visiblePeople_def globalAlerts_def
        split: if_splits)
next
  case (Some e)
  with assms show ?thesis
    by (simp add: buildAlertsForSubscriber_def peopleLoop_Some visiblePeople_def globalAlerts_def)
qed

lemma sortByDays_sorted: "sorted (map days (sortByDays alerts))"
  by (simp add: sortByDays_def)

lemma sortByDays_stable:
  "filter (\<lambda>a. days a = k) (sortByDays alerts) = filter (\<lambda>a. days a = k) alerts"
  unfolding sortByDays_def by (rule sort_key_stable)

section \<open>The sample data evaluated\<close>

lemma globalAlerts_dec20: "globalAlerts dec20 7 = [\<lparr>label = ''Christmas'', days = 5\<rparr>]"
  by (simp add: globalAlerts_def pushGlobals_def GLOBAL_DATES_def daysUntilFixed_def
      todayMidnight_def newDate_def MakeDay_def DayFromYear_def monthStart_def InLeapYear_def
      dec20_def)

lemma daysUntil_dec20:
  "daysUntil dec20 ''12-25'' = Some 5"
  "daysUntil dec20 ''12-24'' = Some 4"
  "daysUntil dec20 ''2020-12-27'' = Some 7"
  by (simp_all add: daysUntil_def Number_def digitValue_def part_def todayMidnight_def newDate_def
      MakeDay_def DayFromYear_def monthStart_def InLeapYear_def dec20_def)

lemma personAlerts_ann: "personAlerts dec20 7 ann = [\<lparr>label = ''Ann's Birthday'', days = 5\<rparr>]"
  by (simp add: personAlerts_def pushPerson_def candidates_def ann_def daysUntil_dec20)

lemma personAlerts_bea:
  "personAlerts dec20 7 bea =
     [\<lparr>label = ''Bea's Anniversary'', days = 4\<rparr>, \<lparr>label = ''Trip (Bea)'', days = 7\<rparr>]"
  by (simp add: personAlerts_def pushPerson_def candidates_def bea_def daysUntil_dec20)

lemma hidden_ann:
  "\<not> hiddenFrom ''H@X.com'' ann" "hiddenFrom ''other@x.com'' ann" "\<not> hiddenFrom ''h@x.com'' ann"
  by (simp_all add: hiddenFrom_def ann_def toLowerCase_def lowerChar_def)

lemma unowned_bea: "\<not> truthy (ownerEmail bea)" "\<not> hiddenFrom e bea"
  by (simp_all add: bea_def hiddenFrom_def)

lemma owned_ann: "truthy (ownerEmail ann)"
  by (simp add: ann_def)

section \<open>Formatting\<close>

lemma formatLine_spec: "0 \<le> days a \<Longrightarrow> formatLine a = spec_line a"
  by (simp add: formatLine_def spec_line_def spec_urgency_def)

lemma map_formatLine_spec:
  "\<forall>a \<in> set alerts. 0 \<le> days a \<Longrightarrow> map formatLine alerts = map spec_line alerts"
  by (simp add: formatLine_spec)

lemma join_terminated:
  "ls \<noteq> [] \<Longrightarrow> join sep ls @ sep = concat (map (\<lambda>l. l @ sep) ls)"
  by (induction sep ls rule: join.induct) simp_all

section \<open>The loop over the subscribers\<close>

lemma sendEmailViaREST_eq:
  "sendEmailViaREST provider toEmail txt cfg evs =
     (let r = provider (length (requests evs)) in
      (if delivered r then Inr ()
       else (case r of Rejected \<Rightarrow> Inl FetchError | Response status body \<Rightarrow> Inl (EmailJSError status body)),
       evs @ [Post (emailRequest toEmail txt cfg) r]))"
  by (simp add: sendEmailViaREST_def Let_def split: fetch_result.splits)

text \<open>One round of the loop, by cases.\<close>

lemma subscriberLoop_throw:
  "buildAlertsForSubscriber now people (sub_email sub) 7 = Inl e \<Longrightarrow>
     subscriberLoop now people cfg provider (sub # subs) s = (Some e, s)"
  by simp

lemma subscriberLoop_skip:
  "buildAlertsForSubscriber now people (sub_email sub) 7 = Inr [] \<Longrightarrow>
     subscriberLoop now people cfg provider (sub # subs) s =
       subscriberLoop now people cfg provider subs (s\<lparr>skipped := skipped s + 1\<rparr>)"
  by simp

lemma subscriberLoop_sent:
  assumes "buildAlertsForSubscriber now people (sub_email sub) 7 = Inr alerts" "alerts \<noteq> []"
    and "delivered (provider (length (requests (trace s))))"
  shows "subscriberLoop now people cfg provider (sub # subs) s =
       subscriberLoop now people cfg provider subs
         (s\<lparr>ok := ok s + 1,
            trace := trace s @
              [Post (emailRequest (sub_email sub) (formatAlertText alerts) cfg)
                 (provider (length (requests (trace s)))), Sleep 1100]\<rparr>)"
  using assms by (simp add: sendEmailViaREST_eq Let_def)

lemma subscriberLoop_failed:
  assumes "buildAlertsForSubscriber now people (sub_email sub) 7 = Inr alerts" "alerts \<noteq> []"
    and "\<not> delivered (provider (length (requests (trace s))))"
  shows "subscriberLoop now people cfg provider (sub # subs) s =
       subscriberLoop now people cfg provider subs
         (s\<lparr>fail := fail s + 1,
            trace := trace s @
              [Post (emailRequest (sub_email sub) (formatAlertText alerts) cfg)
                 (provider (length (requests (trace s))))]\<rparr>)"
proof -
  obtain e where "(if delivered (provider (length (requests (trace s)))) then Inr ()
       else (case provider (length (requests (trace s))) of Rejected \<Rightarrow> Inl FetchError
             | Response status body \<Rightarrow> Inl (EmailJSError status body))) = Inl e"
    using assms(3) by (cases "provider (length (requests (trace s)))") simp_all
  with assms show ?thesis
    by (simp add: sendEmailViaREST_eq Let_def)
qed

lemma requests_append: "requests (evs @ evs') = requests evs @ requests evs'"
  by (induction evs rule: requests.induct) simp_all

lemma subscriberLoop_round:
  obtains (throw) e where
      "buildAlertsForSubscriber now people (sub_email sub) 7 = Inl e"
      "subscriberLoop now people cfg provider (sub # subs) s = (Some e, s)"
  | (skip)
      "buildAlertsForSubscriber now people (sub_email sub) 7 = Inr []"
      "subscriberLoop now people cfg provider (sub # subs) s =
         subscriberLoop now people cfg provider subs (s\<lparr>skipped := skipped s + 1\<rparr>)"
  | (sent) r where
      "alertsOf now people sub \<noteq> []"
      "\<exists>alerts. buildAlertsForSubscriber now people (sub_email sub) 7 = Inr alerts"
      "delivered r"
      "subscriberLoop now people cfg provider (sub # subs) s =
         subscriberLoop now people cfg provider subs
           (s\<lparr>ok := ok s + 1, trace := trace s @ [Post (requestFor now people cfg sub) r, Sleep 1100]\<rparr>)"
  | (failed) r where
      "alertsOf now people sub \<noteq> []"
      "\<exists>alerts. buildAlertsForSubscriber now people (sub_email sub) 7 = Inr alerts"
      "\<not> delivered r"
      "subscriberLoop now people cfg provider (sub # subs) s =
         subscriberLoop now people cfg provider subs
           (s\<lparr>fail := fail s + 1, trace := trace s @ [Post (requestFor now people cfg sub) r]\<rparr>)"
proof (cases "buildAlertsForSubscriber now people (sub_email sub) 7")
  case (Inl e)
  then show ?thesis using throw subscriberLoop_throw by blast
next
  case (Inr alerts)
  show ?thesis
  proof (cases "alerts = []")
    case True
    with Inr show ?thesis using skip subscriberLoop_skip by blast
  next
    case False
    from Inr have a: "alertsOf now people sub = alerts"
      by (simp add: alertsOf_def)
    let ?r = "provider (length (requests (trace s)))"
    show ?thesis
    proof (cases "delivered ?r")
      case True
      from subscriberLoop_sent [of now people sub alerts provider s cfg subs] a False Inr True
      show ?thesis using sent [of ?r] by (simp add: requestFor_def)
    next
      case d: False
      from subscriberLoop_failed [of now people sub alerts provider s cfg subs] a False Inr d
      show ?thesis using failed [of ?r] by (simp add: requestFor_def)
    qed
  qed
qed

declare subscriberLoop.simps(2) [simp del]

lemma loop_counters:
  "subscriberLoop now people cfg provider subs s = (None, s') \<Longrightarrow>
     ok s' + skipped s' + fail s' = ok s + skipped s + fail s + length subs"
proof (induction subs arbitrary: s)
  case Nil
  then show ?case by simp
next
  case (Cons sub subs)
  show ?case
  proof (cases rule: subscriberLoop_round [of now people sub cfg provider subs s])
    case (throw e)
    with Cons.prems show ?thesis by simp
  next
    case skip
    with Cons.prems Cons.IH [of "s\<lparr>skipped := skipped s + 1\<rparr>"] show ?thesis by simp
  next
    case (sent r)
    with Cons.prems
      Cons.IH [of "s\<lparr>ok := ok s + 1, trace := trace s @ [Post (requestFor now people cfg sub) r, Sleep 1100]\<rparr>"]
    show ?thesis by simp
  next
    case (failed r)
    with Cons.prems
      Cons.IH [of "s\<lparr>fail := fail s + 1, trace := trace s @ [Post (requestFor now people cfg sub) r]\<rparr>"]
    show ?thesis by simp
  qed
qed

lemma loop_fail_count:
  "subscriberLoop now people cfg provider subs s = (err, s') \<Longrightarrow>
     fail s' + length (filter failedSend (trace s)) = fail s + length (filter failedSend (trace s'))"
proof (induction subs arbitrary: s)
  case Nil
  then show ?case by simp
next
  case (Cons sub subs)
  show ?case
  proof (cases rule: subscriberLoop_round [of now people sub cfg provider subs s])
    case (throw e)
    with Cons.prems show ?thesis by simp
  next
    case skip
    with Cons.prems Cons.IH [of "s\<lparr>skipped := skipped s + 1\<rparr>"] show ?thesis by simp
  next
    case (sent r)
    with Cons.prems
      Cons.IH [of "s\<lparr>ok := ok s + 1, trace := trace s @ [Post (requestFor now people cfg sub) r, Sleep 1100]\<rparr>"]
    show ?thesis by simp
  next
    case (failed r)
    with Cons.prems
      Cons.IH [of "s\<lparr>fail := fail s + 1, trace := trace s @ [Post (requestFor now people cfg sub) r]\<rparr>"]
    show ?thesis by simp
  qed
qed

lemma loop_ok_count:
  "subscriberLoop now people cfg provider subs s = (err, s') \<Longrightarrow>
     ok s' + length (filter deliveredSend (trace s)) = ok s + length (filter deliveredSend (trace s'))"
proof (induction subs arbitrary: s)
  case Nil
  then show ?case by simp
next
  case (Cons sub subs)
  show ?case
  proof (cases rule: subscriberLoop_round [of now people sub cfg provider subs s])
    case (throw e)
    with Cons.prems show ?thesis by simp
  next
    case skip
    with Cons.prems Cons.IH [of "s\<lparr>skipped := skipped s + 1\<rparr>"] show ?thesis by simp
  next
    case (sent r)
    with Cons.prems
      Cons.IH [of "s\<lparr>ok := ok s + 1, trace := trace s @ [Post (requestFor now people cfg sub) r, Sleep 1100]\<rparr>"]
    show ?thesis by simp
  next
    case (failed r)
    with Cons.prems
      Cons.IH [of "s\<lparr>fail := fail s + 1, trace := trace s @ [Post (requestFor now people cfg sub) r]\<rparr>"]
    show ?thesis by simp
  qed
qed

lemma loop_requests:
  "subscriberLoop now people cfg provider subs s = (None, s') \<Longrightarrow>
     requests (trace s') =
       requests (trace s) @
       map (requestFor now people cfg) (filter (\<lambda>sub. alertsOf now people sub \<noteq> []) subs) \<and>
     skipped s' = skipped s + length (filter (\<lambda>sub. alertsOf now people sub = []) subs)"
proof (induction subs arbitrary: s)
  case Nil
  then show ?case by simp
next
  case (Cons sub subs)
  show ?case
  proof (cases rule: subscriberLoop_round [of now people sub cfg provider subs s])
    case (throw e)
    with Cons.prems show ?thesis by simp
  next
    case skip
    then have "alertsOf now people sub = []" by (simp add: alertsOf_def)
    with skip Cons.prems Cons.IH [of "s\<lparr>skipped := skipped s + 1\<rparr>"] show ?thesis by simp
  next
    case (sent r)
    with Cons.prems
      Cons.IH [of "s\<lparr>ok := ok s + 1, trace := trace s @ [Post (requestFor now people cfg sub) r, Sleep 1100]\<rparr>"]
    show ?thesis by (simp add: requests_append)
  next
    case (failed r)
    with Cons.prems
      Cons.IH [of "s\<lparr>fail := fail s + 1, trace := trace s @ [Post (requestFor now people cfg sub) r]\<rparr>"]
    show ?thesis by (simp add: requests_append)
  qed
qed

lemma loop_completes:
  "\<forall>sub \<in> set subs. \<exists>alerts. buildAlertsForSubscriber now people (sub_email sub) 7 = Inr alerts \<Longrightarrow>
     fst (subscriberLoop now people cfg provider subs s) = None"
proof (induction subs arbitrary: s)
  case Nil
  then show ?case by simp
next
  case (Cons sub subs)
  from Cons.prems have rest:
    "\<forall>sub \<in> set subs. \<exists>alerts. buildAlertsForSubscriber now people (sub_email sub) 7 = Inr alerts"
    and here: "\<exists>alerts. buildAlertsForSubscriber now people (sub_email sub) 7 = Inr alerts"
    by simp_all
  show ?case
  proof (cases rule: subscriberLoop_round [of now people sub cfg provider subs s])
    case (throw e)
    with here show ?thesis by simp
  next
    case skip
    with Cons.IH [OF rest] show ?thesis by simp
  next
    case (sent r)
    with Cons.IH [OF rest] show ?thesis by simp
  next
    case (failed r)
    with Cons.IH [OF rest] show ?thesis by simp
  qed
qed

lemma loop_all_skipped:
  "\<forall>sub \<in> set subs. buildAlertsForSubscriber now people (sub_email sub) 7 = Inr [] \<Longrightarrow>
     subscriberLoop now people cfg provider subs s = (None, s\<lparr>skipped := skipped s + length subs\<rparr>)"
proof (induction subs arbitrary: s)
  case Nil
  show ?case by simp
next
  case (Cons sub subs)
  then show ?case by (simp add: subscriberLoop_skip)
qed

lemma loop_trace_extends:
  "subscriberLoop now people cfg provider subs s = (err, s') \<Longrightarrow> \<exists>evs. trace s' = trace s @ evs"
proof (induction subs arbitrary: s)
  case Nil
  then show ?case by simp
next
  case (Cons sub subs)
  show ?case
  proof (cases rule: subscriberLoop_round [of now people sub cfg provider subs s])
    case (throw e)
    with Cons.prems show ?thesis by simp
  next
    case skip
    with Cons.prems Cons.IH [of "s\<lparr>skipped := skipped s + 1\<rparr>"] show ?thesis by simp
  next
    case (sent r)
    with Cons.prems
      Cons.IH [of "s\<lparr>ok := ok s + 1, trace := trace s @ [Post (requestFor now people cfg sub) r, Sleep 1100]\<rparr>"]
    show ?thesis by auto
  next
    case (failed r)
    with Cons.prems
      Cons.IH [of "s\<lparr>fail := fail s + 1, trace := trace s @ [Post (requestFor now people cfg sub) r]\<rparr>"]
    show ?thesis by auto
  qed
qed

section \<open>The sample run evaluated\<close>

lemma globalAlerts_jun1: "globalAlerts jun1 7 = []"
  by (simp add: globalAlerts_def pushGlobals_def GLOBAL_DATES_def daysUntilFixed_def
      todayMidnight_def newDate_def MakeDay_def DayFromYear_def monthStart_def InLeapYear_def
      jun1_def)

lemma daysUntil_jun1:
  "daysUntil jun1 ''06-03'' = Some 2"
  "daysUntil jun1 ''2010-06-05'' = Some 4"
  by (simp_all add: daysUntil_def Number_def digitValue_def part_def todayMidnight_def newDate_def
      MakeDay_def DayFromYear_def monthStart_def InLeapYear_def jun1_def)

lemma personAlerts_jun1:
  "personAlerts jun1 7 cy = [\<lparr>label = ''Cy's Birthday'', days = 2\<rparr>]"
  "personAlerts jun1 7 dee = [\<lparr>label = ''Dee's Anniversary'', days = 4\<rparr>]"
  by (simp_all add: personAlerts_def pushPerson_def candidates_def cy_def dee_def daysUntil_jun1)

lemma hidden_jun1:
  "\<not> hiddenFrom ''h@x.com'' cy" "hiddenFrom ''h@x.com'' dee"
  "hiddenFrom ''other@x.com'' cy" "hiddenFrom ''other@x.com'' dee"
  "hiddenFrom ''t@x.com'' cy" "\<not> hiddenFrom ''t@x.com'' dee"
  by (simp_all add: hiddenFrom_def cy_def dee_def toLowerCase_def lowerChar_def)

lemma alerts_jun1:
  "buildAlertsForSubscriber jun1 [cy, dee] (sub_email husband) 7 =
     Inr [\<lparr>label = ''Cy's Birthday'', days = 2\<rparr>]"
  "buildAlertsForSubscriber jun1 [cy, dee] (sub_email other) 7 = Inr []"
  "buildAlertsForSubscriber jun1 [cy, dee] (sub_email third) 7 =
     Inr [\<lparr>label = ''Dee's Anniversary'', days = 4\<rparr>]"
  by (simp_all add: buildAlertsForSubscriber_Some husband_def other_def third_def hidden_jun1
      globalAlerts_jun1 personAlerts_jun1 sortByDays_def)

lemma failFirst_simps:
  "failFirst 0 = Response 500 ''Internal Server Error''"
  "failFirst (Suc k) = Response 200 ''OK''"
  by (simp_all add: failFirst_def)

lemma requestFor_jun1:
  "requestFor jun1 [cy, dee] cfg0 husband =
     \<lparr>service_id = Some ''service'', template_id = Some ''template'', user_id = Some ''key'',
      to_email = Some ''h@x.com'', from_name = ''Date Reminder'',
      event_list = ''In 2 day(s) -- Cy's Birthday''\<rparr>"
  "requestFor jun1 [cy, dee] cfg0 third =
     \<lparr>service_id = Some ''service'', template_id = Some ''template'', user_id = Some ''key'',
      to_email = Some ''t@x.com'', from_name = ''Date Reminder'',
      event_list = ''In 4 days -- Dee's Anniversary''\<rparr>"
  by (simp_all add: requestFor_def alertsOf_def alerts_jun1 emailRequest_def cfg0_def
      formatAlertText_def formatLine_def showInt_def showNat.simps digitChar_def,
      simp_all add: husband_def third_def)

lemma run_jun1:
  "subscriberLoop jun1 [cy, dee] cfg0 failFirst [husband, other, third] start =
     (None, \<lparr>ok = 1, fail = 1, skipped = 1,
             trace = [Post (requestFor jun1 [cy, dee] cfg0 husband) (Response 500 ''Internal Server Error''),
                      Post (requestFor jun1 [cy, dee] cfg0 third) (Response 200 ''OK''),
                      Sleep 1100]\<rparr>)"
proof -
  let ?p1 = "Post (requestFor jun1 [cy, dee] cfg0 husband) (Response 500 ''Internal Server Error'')"
  let ?p2 = "Post (requestFor jun1 [cy, dee] cfg0 third) (Response 200 ''OK'')"
  let ?s1 = "\<lparr>ok = 0, fail = 1, skipped = 0, trace = [?p1]\<rparr>"
  let ?s2 = "\<lparr>ok = 0, fail = 1, skipped = 1, trace = [?p1]\<rparr>"
  let ?s3 = "\<lparr>ok = 1, fail = 1, skipped = 1, trace = [?p1, ?p2, Sleep 1100]\<rparr>"
  have "subscriberLoop jun1 [cy, dee] cfg0 failFirst [husband, other, third] start =
      subscriberLoop jun1 [cy, dee] cfg0 failFirst [other, third] ?s1"
    using subscriberLoop_failed [OF alerts_jun1(1), of failFirst start cfg0 "[other, third]"]
    by (simp add: start_def failFirst_simps requestFor_def alertsOf_def alerts_jun1)
  also have "\<dots> = subscriberLoop jun1 [cy, dee] cfg0 failFirst [third] ?s2"
    using subscriberLoop_skip [OF alerts_jun1(2), of cfg0 failFirst "[third]" ?s1]
    by simp
  also have "\<dots> = subscriberLoop jun1 [cy, dee] cfg0 failFirst [] ?s3"
    using subscriberLoop_sent [OF alerts_jun1(3), of failFirst ?s2 cfg0 "[]"]
    by (simp add: failFirst_def requestFor_def alertsOf_def alerts_jun1)
  finally show ?thesis by simp
qed

lemma main_jun1:
  "main jun1 db0 failFirst =
     (Exited 1, \<lparr>ok = 1, fail = 1, skipped = 1,
             trace = [Post (requestFor jun1 [cy, dee] cfg0 husband) (Response 500 ''Internal Server Error''),
                      Post (requestFor jun1 [cy, dee] cfg0 third) (Response 200 ''OK''),
                      Sleep 1100]\<rparr>)"
  by (simp add: main_def db0_def run_jun1) (simp add: cfg0_def)

section \<open>How the run ends\<close>

lemma loop_fail_iff:
  assumes "subscriberLoop now people cfg provider subs start = (err, s)"
  shows "(0 < fail s) = (\<exists>ev \<in> set (trace s). failedSend ev)"
proof -
  from loop_fail_count [OF assms] have "fail s = length (filter failedSend (trace s))"
    by (simp add: start_def)
  then show ?thesis
    by (simp add: filter_empty_conv)
qed

lemma main_early:
  "emailConfig db = Inr None \<Longrightarrow> main now db provider = (Returned, start)"
  "emailConfig db = Inr (Some cfg) \<Longrightarrow> \<not> complete cfg \<Longrightarrow> main now db provider = (Returned, start)"
  "emailConfig db = Inr (Some cfg) \<Longrightarrow> complete cfg \<Longrightarrow> wives db = Inr people \<Longrightarrow>
     subscribers db = Inr [] \<Longrightarrow> main now db provider = (Returned, start)"
  by (auto simp add: main_def complete_def)

lemma main_thrown:
  "emailConfig db = Inl e \<Longrightarrow> main now db provider = (Threw e, start)"
  "emailConfig db = Inr (Some cfg) \<Longrightarrow> complete cfg \<Longrightarrow> wives db = Inl e \<Longrightarrow>
     main now db provider = (Threw e, start)"
  "emailConfig db = Inr (Some cfg) \<Longrightarrow> complete cfg \<Longrightarrow> wives db = Inr people \<Longrightarrow>
     subscribers db = Inl e \<Longrightarrow> main now db provider = (Threw e, start)"
  by (auto simp add: main_def complete_def)

lemma main_loop:
  assumes "emailConfig db = Inr (Some cfg)" "complete cfg" "wives db = Inr people"
    "subscribers db = Inr subs" "subs \<noteq> []"
  shows "main now db provider =
     (case subscriberLoop now people cfg provider subs start of
        (Some e, s) \<Rightarrow> (Threw e, s)
      | (None, s) \<Rightarrow> if fail s > 0 then (Exited 1, s) else (Returned, s))"
  using assms by (auto simp add: main_def complete_def)

lemma main_outcome:
  "(\<exists>e. fst (main now db provider) = Threw e) \<or>
   (fst (main now db provider) = Returned \<and>
      \<not> (\<exists>ev \<in> set (trace (snd (main now db provider))). failedSend ev)) \<or>
   (fst (main now db provider) = Exited 1 \<and>
      (\<exists>ev \<in> set (trace (snd (main now db provider))). failedSend ev))"
proof (cases "emailConfig db")
  case (Inl e)
  then show ?thesis by (simp add: main_thrown)
next
  case (Inr c)
  show ?thesis
  proof (cases c)
    case None
    with Inr show ?thesis by (simp add: main_early start_def)
  next
    case (Some cfg)
    with Inr have cfg: "emailConfig db = Inr (Some cfg)" by simp
    show ?thesis
    proof (cases "complete cfg")
      case False
      with cfg show ?thesis by (simp add: main_early start_def)
    next
      case True
      show ?thesis
      proof (cases "wives db")
        case (Inl e)
        with cfg True show ?thesis by (simp add: main_thrown)
      next
        case people: (Inr people)
        show ?thesis
        proof (cases "subscribers db")
          case (Inl e)
          with cfg True people show ?thesis by (simp add: main_thrown)
        next
          case subs: (Inr subs)
          show ?thesis
          proof (cases "subs = []")
            case True
            with cfg \<open>complete cfg\<close> people subs show ?thesis by (simp add: main_early start_def)
          next
            case False
            obtain err s where l: "subscriberLoop now people cfg provider subs start = (err, s)"
              by (cases "subscriberLoop now people cfg provider subs start")
            note m = main_loop [OF cfg True people subs False, of now provider]
            show ?thesis
            proof (cases err)
              case (Some e)
              with m l show ?thesis by simp
            next
              case None
              with m l loop_fail_iff [OF l] show ?thesis by simp
            qed
          qed
        qed
      qed
    qed
  qed
qed

lemma main_all_skipped:
  assumes "emailConfig db = Inr (Some cfg)" "complete cfg" "wives db = Inr people"
    "subscribers db = Inr subs"
    "\<forall>sub \<in> set subs. buildAlertsForSubscriber now people (sub_email sub) 7 = Inr []"
  shows "main now db provider = (Returned, start\<lparr>skipped := length subs\<rparr>)"
proof (cases "subs = []")
  case True
  with assms show ?thesis by (simp add: main_early start_def)
next
  case False
  from loop_all_skipped [OF assms(5), of cfg provider start]
  show ?thesis
    by (simp add: main_loop [OF assms(1-4) False] start_def)
qed

section \<open>Properties of the specification\<close>

text \<open>
  C1, as stated, fails where the subscriber email is \<^verbatim>\<open>null\<close>: with a person that has an
  owner, \<^verbatim>\<open>buildAlertsForSubscriber\<close> returns no alert list at all, it throws a TypeError
  (the function has no branch for an absent email).
\<close>

theorem ownership_null_counterexample:
  "buildAlertsForSubscriber dec20 [ann] None 7 = Inl TypeError"
  by (simp add: buildAlertsForSubscriber_def ann_def)

text \<open>
  C1, amended. For a subscriber email that is a string, the result is the sorted list of the
  holiday alerts followed by the alerts of exactly the people that are not hidden from that
  email, where a person is hidden exactly when it has a non-empty \<^verbatim>\<open>ownerEmail\<close> whose
  lower-cased value differs from the lower-cased subscriber email: a person whose owner
  equals the email up to case, and a person with no owner, contribute their alerts. For a
  subscriber email that is \<^verbatim>\<open>null\<close>, nobody is skipped when no person has a non-empty
  \<^verbatim>\<open>ownerEmail\<close>, and otherwise the call throws a TypeError.
\<close>

theorem ownership_rule:
  "buildAlertsForSubscriber now people (Some e) maxDays =
     Inr (sortByDays (globalAlerts now maxDays @
       concat (map (personAlerts now maxDays) (filter (\<lambda>p. \<not> hiddenFrom e p) people)))) \<and>
   buildAlertsForSubscriber now people None maxDays =
     (if \<exists>p \<in> set people. truthy (ownerEmail p) then Inl TypeError
      else Inr (sortByDays (globalAlerts now maxDays @
             concat (map (personAlerts now maxDays) people))))"
  by (simp add: buildAlertsForSubscriber_def peopleLoop_Some peopleLoop_None globalAlerts_def)

theorem ownership_rule_witness:
  "buildAlertsForSubscriber dec20 [ann, bea] (Some ''H@X.com'') 7 =
     Inr [\<lparr>label = ''Bea's Anniversary'', days = 4\<rparr>, \<lparr>label = ''Christmas'', days = 5\<rparr>,
          \<lparr>label = ''Ann's Birthday'', days = 5\<rparr>, \<lparr>label = ''Trip (Bea)'', days = 7\<rparr>] \<and>
   buildAlertsForSubscriber dec20 [ann, bea] (Some ''other@x.com'') 7 =
     Inr [\<lparr>label = ''Bea's Anniversary'', days = 4\<rparr>, \<lparr>label = ''Christmas'', days = 5\<rparr>,
          \<lparr>label = ''Trip (Bea)'', days = 7\<rparr>] \<and>
   buildAlertsForSubscriber dec20 [bea] None 7 =
     Inr [\<lparr>label = ''Bea's Anniversary'', days = 4\<rparr>, \<lparr>label = ''Christmas'', days = 5\<rparr>,
          \<lparr>label = ''Trip (Bea)'', days = 7\<rparr>] \<and>
   buildAlertsForSubscriber dec20 [ann, bea] None 7 = Inl TypeError"
  using ownership_rule [of dec20 "[ann, bea]" "''H@X.com''" 7]
    ownership_rule [of dec20 "[ann, bea]" "''other@x.com''" 7]
    ownership_rule [of dec20 "[bea]" "''''" 7]
  by (simp add: hidden_ann unowned_bea owned_ann globalAlerts_dec20 personAlerts_ann
      personAlerts_bea sortByDays_def)

text \<open>
  C2. In both builders the returned list is sorted non-decreasing by \<open>days\<close>, and the sort
  is stable: for every value \<open>k\<close>, the alerts with \<open>days = k\<close> stand in the result in
  the order of insertion, the holidays first and then the alerts of the (visible) people in
  the order of the people. For \<^verbatim>\<open>buildAlertsForSubscriber\<close> this is about the list it
  returns, when it returns one.
\<close>

theorem alerts_sorted_stable:
  "sorted (map days (buildAlerts now people maxDays)) \<and>
   (\<forall>k. filter (\<lambda>a. days a = k) (buildAlerts now people maxDays) =
        filter (\<lambda>a. days a = k) (globalAlerts now maxDays) @
        filter (\<lambda>a. days a = k) (concat (map (personAlerts now maxDays) people))) \<and>
   (\<forall>alerts. buildAlertsForSubscriber now people subscriberEmail maxDays = Inr alerts \<longrightarrow>
      sorted (map days alerts) \<and>
      (\<forall>k. filter (\<lambda>a. days a = k) alerts =
        filter (\<lambda>a. days a = k) (globalAlerts now maxDays) @
        filter (\<lambda>a. days a = k)
          (concat (map (personAlerts now maxDays) (visiblePeople subscriberEmail people)))))"
proof (intro conjI allI impI)
  show "sorted (map days (buildAlerts now people maxDays))"
    unfolding buildAlerts_eq by (rule sortByDays_sorted)
next
  fix k
  show "filter (\<lambda>a. days a = k) (buildAlerts now people maxDays) =
        filter (\<lambda>a. days a = k) (globalAlerts now maxDays) @
        filter (\<lambda>a. days a = k) (concat (map (personAlerts now maxDays) people))"
    unfolding buildAlerts_eq sortByDays_stable by (rule filter_append)
next
  fix alerts
  assume "buildAlertsForSubscriber now people subscriberEmail maxDays = Inr alerts"
  then have eq: "alerts = sortByDays (globalAlerts now maxDays @
           concat (map (personAlerts now maxDays) (visiblePeople subscriberEmail people)))"
    by (rule buildAlertsForSubscriber_Inr)
  show "sorted (map days alerts)"
    unfolding eq by (rule sortByDays_sorted)
  fix k
  show "filter (\<lambda>a. days a = k) alerts =
        filter (\<lambda>a. days a = k) (globalAlerts now maxDays) @
        filter (\<lambda>a. days a = k)
          (concat (map (personAlerts now maxDays) (visiblePeople subscriberEmail people)))"
    unfolding eq sortByDays_stable by (rule filter_append)
qed

theorem alerts_sorted_stable_witness:
  "buildAlertsForSubscriber dec20 [bea, ann] (Some ''h@x.com'') 7 =
     Inr (buildAlerts dec20 [bea, ann] 7) \<and>
   map days (buildAlerts dec20 [bea, ann] 7) = [4, 5, 5, 7] \<and>
   sorted (map days (buildAlerts dec20 [bea, ann] 7)) \<and>
   filter (\<lambda>a. days a = 5) (buildAlerts dec20 [bea, ann] 7) =
     [\<lparr>label = ''Christmas'', days = 5\<rparr>, \<lparr>label = ''Ann's Birthday'', days = 5\<rparr>]"
proof -
  note th = alerts_sorted_stable [of dec20 "[bea, ann]" 7 "Some ''h@x.com''"]
  have vis: "visiblePeople (Some ''h@x.com'') [bea, ann] = [bea, ann]"
    by (simp add: visiblePeople_def hidden_ann unowned_bea)
  have b: "buildAlerts dec20 [bea, ann] 7 =
     [\<lparr>label = ''Bea's Anniversary'', days = 4\<rparr>, \<lparr>label = ''Christmas'', days = 5\<rparr>,
      \<lparr>label = ''Ann's Birthday'', days = 5\<rparr>, \<lparr>label = ''Trip (Bea)'', days = 7\<rparr>]"
    by (simp add: buildAlerts_eq globalAlerts_dec20 personAlerts_ann personAlerts_bea sortByDays_def)
  have s: "buildAlertsForSubscriber dec20 [bea, ann] (Some ''h@x.com'') 7 =
     Inr (buildAlerts dec20 [bea, ann] 7)"
    by (simp add: buildAlertsForSubscriber_Some buildAlerts_eq hidden_ann unowned_bea)
  from th s have "sorted (map days (buildAlerts dec20 [bea, ann] 7))"
    and "filter (\<lambda>a. days a = 5) (buildAlerts dec20 [bea, ann] 7) =
        filter (\<lambda>a. days a = 5) (globalAlerts dec20 7) @
        filter (\<lambda>a. days a = 5) (concat (map (personAlerts dec20 7) (visiblePeople (Some ''h@x.com'') [bea, ann])))"
    by blast+
  then show ?thesis
    using s b by (simp add: vis globalAlerts_dec20 personAlerts_ann personAlerts_bea)
qed

text \<open>
  C3. On a valid day of the clock, for a month field with a value from 1 to 12 and a day field
  with a value from 1 to 31 (strings of decimal digits), \<^verbatim>\<open>daysUntil\<close> returns the same
  integer for the two-field string "MM-DD" and for the three-field string "YYYY-MM-DD",
  whatever stands in the year field (any text without a hyphen).
\<close>

theorem daysUntil_ignores_year:
  assumes "valid_today t"
    and "field mm m" "1 \<le> m" "m \<le> 12"
    and "field dd d" "1 \<le> d" "d \<le> 31"
    and "CHR ''-'' \<notin> set yyyy"
  shows "\<exists>n. daysUntil t (mm @ ''-'' @ dd) = Some n \<and>
             daysUntil t (yyyy @ ''-'' @ mm @ ''-'' @ dd) = Some n"
proof -
  have h: "CHR ''-'' \<notin> set mm" "CHR ''-'' \<notin> set dd"
    using assms(2,5) by (simp_all add: field_no_hyphen)
  have same: "daysUntil t (yyyy @ CHR ''-'' # mm @ CHR ''-'' # dd) = daysUntil t (mm @ CHR ''-'' # dd)"
    using assms(8) h by (rule daysUntil_three_fields)
  obtain n where "daysUntilFixed t m d = Some n"
    using daysUntilFixed_valid [OF assms(1,3,4,6,7)] by blast
  then have "daysUntil t (mm @ CHR ''-'' # dd) = Some n"
    using daysUntil_is_daysUntilFixed [OF assms(2,5), of t] by simp
  with same show ?thesis by simp
qed

theorem daysUntil_ignores_year_witness:
  "daysUntil dec20 ''12-25'' = Some 5 \<and>
   daysUntil dec20 ''1990-12-25'' = Some 5"
proof -
  have y: "CHR ''-'' \<notin> set ''1990''" by simp
  have five: "daysUntil dec20 (''12'' @ ''-'' @ ''25'') = Some 5"
    by (simp add: daysUntil_def Number_def digitValue_def part_def todayMidnight_def newDate_def
        MakeDay_def DayFromYear_def monthStart_def InLeapYear_def dec20_def)
  from daysUntil_ignores_year [OF valid_dec20 field_literals(1) _ _ field_literals(2) _ _ y]
  obtain n where "daysUntil dec20 (''12'' @ ''-'' @ ''25'') = Some n"
    and "daysUntil dec20 (''1990'' @ ''-'' @ ''12'' @ ''-'' @ ''25'') = Some n"
    by auto
  with five show ?thesis by simp
qed

text \<open>
  C4. On a valid day of the clock, for every month from 1 to 12 and day from 1 to 31,
  \<^verbatim>\<open>daysUntilFixed\<close> returns an integer \<open>n\<close> from 0 to 365 that is the count of days
  from today's midnight to the next occurrence of that month and day: it is the distance to
  this year's occurrence when that has not passed and to next year's otherwise, today plus
  \<open>n\<close> days is an occurrence of the month and day, and no occurrence in any year lies
  between today and that day. For the month and day of the clock itself (the 1-based month
  is \<open>getMonth + 1\<close>) it returns 0.
\<close>

theorem daysUntilFixed_nonneg_and_today:
  assumes "valid_today t"
  shows "(1 \<le> month \<and> month \<le> 12 \<and> 1 \<le> day \<and> day \<le> 31 \<longrightarrow>
           (\<exists>n. daysUntilFixed t month day = Some n \<and> 0 \<le> n \<and> n \<le> 365 \<and>
              n = (if todayMidnight t \<le> occurrence (getFullYear t) month day
                   then occurrence (getFullYear t) month day - todayMidnight t
                   else occurrence (getFullYear t + 1) month day - todayMidnight t) \<and>
              (\<exists>y. todayMidnight t + n = occurrence y month day) \<and>
              (\<forall>y. todayMidnight t \<le> occurrence y month day \<longrightarrow>
                   todayMidnight t + n \<le> occurrence y month day))) \<and>
         daysUntilFixed t (getMonth t + 1) (getDate t) = Some 0"
proof (intro conjI impI)
  assume "1 \<le> month \<and> month \<le> 12 \<and> 1 \<le> day \<and> day \<le> 31"
  then have md: "1 \<le> month" "month \<le> 12" "1 \<le> day" "day \<le> 31" by simp_all
  define n where "n = (if todayMidnight t \<le> occurrence (getFullYear t) month day
                   then occurrence (getFullYear t) month day - todayMidnight t
                   else occurrence (getFullYear t + 1) month day - todayMidnight t)"
  have e: "daysUntilFixed t month day = Some n"
    unfolding n_def by (rule daysUntilFixed_roll [OF assms md])
  from daysUntilFixed_next [OF assms md e] e n_def
  show "\<exists>n. daysUntilFixed t month day = Some n \<and> 0 \<le> n \<and> n \<le> 365 \<and>
              n = (if todayMidnight t \<le> occurrence (getFullYear t) month day
                   then occurrence (getFullYear t) month day - todayMidnight t
                   else occurrence (getFullYear t + 1) month day - todayMidnight t) \<and>
              (\<exists>y. todayMidnight t + n = occurrence y month day) \<and>
              (\<forall>y. todayMidnight t \<le> occurrence y month day \<longrightarrow>
                   todayMidnight t + n \<le> occurrence y month day)"
    by blast
next
  show "daysUntilFixed t (getMonth t + 1) (getDate t) = Some 0"
    by (rule daysUntilFixed_same_day [OF assms])
qed

theorem daysUntilFixed_nonneg_and_today_witness:
  "daysUntilFixed dec20 2 14 = Some 56 \<and>
   daysUntilFixed dec20 12 25 = Some 5 \<and>
   daysUntilFixed dec20 12 20 = Some 0 \<and>
   todayMidnight dec20 + 56 = occurrence 2026 2 14 \<and>
   todayMidnight dec20 + 5 = occurrence 2025 12 25"
proof -
  have y: "getFullYear dec20 = 2025" "getMonth dec20 + 1 = 12" "getDate dec20 = 20"
    by (simp_all add: dec20_def)
  show ?thesis
    using daysUntilFixed_nonneg_and_today [OF valid_dec20, of 2 14]
      daysUntilFixed_nonneg_and_today [OF valid_dec20, of 12 25]
    by (auto simp add: y occurrences_dec20)
qed

text \<open>
  C5. \<^verbatim>\<open>formatAlertText\<close> maps the empty list to the empty string. A non-empty list of
  alerts (with \<open>days\<close> not negative, as the data model of the specification has them) is
  rendered as the lines \<open>urgency -- label\<close> of its alerts, the urgency being "TODAY" for
  \<open>days = 0\<close>, "In n day(s)" for \<open>days\<close> from 1 to 3 and "In n days" otherwise; the
  lines are joined by one newline with none after the last: the result followed by a
  newline is the concatenation of the newline-terminated lines.
\<close>

theorem formatAlertText_spec:
  "formatAlertText [] = [] \<and>
   (alerts \<noteq> [] \<and> (\<forall>a \<in> set alerts. 0 \<le> days a) \<longrightarrow>
      formatAlertText alerts = join [CHR 0x0A] (map spec_line alerts) \<and>
      formatAlertText alerts @ [CHR 0x0A] = concat (map (\<lambda>a. spec_line a @ [CHR 0x0A]) alerts))"
proof (intro conjI impI)
  show "formatAlertText [] = []"
    by (simp add: formatAlertText_def)
next
  assume h: "alerts \<noteq> [] \<and> (\<forall>a \<in> set alerts. 0 \<le> days a)"
  then have eq: "formatAlertText alerts = join [CHR 0x0A] (map spec_line alerts)"
    by (simp add: formatAlertText_def map_formatLine_spec)
  show "formatAlertText alerts = join [CHR 0x0A] (map spec_line alerts)"
    by (rule eq)
  from h have "map spec_line alerts \<noteq> []" by simp
  then have "join [CHR 0x0A] (map spec_line alerts) @ [CHR 0x0A] =
      concat (map (\<lambda>l. l @ [CHR 0x0A]) (map spec_line alerts))"
    by (rule join_terminated)
  then show "formatAlertText alerts @ [CHR 0x0A] = concat (map (\<lambda>a. spec_line a @ [CHR 0x0A]) alerts)"
    by (simp add: eq comp_def)
qed

theorem formatAlertText_spec_witness:
  "formatAlertText [\<lparr>label = ''Test'', days = 0\<rparr>] = ''TODAY -- Test'' \<and>
   formatAlertText [\<lparr>label = ''X'', days = 2\<rparr>] = ''In 2 day(s) -- X'' \<and>
   formatAlertText [\<lparr>label = ''Y'', days = 5\<rparr>] = ''In 5 days -- Y'' \<and>
   formatAlertText [\<lparr>label = ''Test'', days = 0\<rparr>, \<lparr>label = ''X'', days = 2\<rparr>,
       \<lparr>label = ''Y'', days = 15\<rparr>] =
     ''TODAY -- Test'' @ [CHR 0x0A] @ ''In 2 day(s) -- X'' @ [CHR 0x0A] @ ''In 15 days -- Y''"
  using formatAlertText_spec [of "[\<lparr>label = ''Test'', days = 0\<rparr>]"]
    formatAlertText_spec [of "[\<lparr>label = ''X'', days = 2\<rparr>]"]
    formatAlertText_spec [of "[\<lparr>label = ''Y'', days = 5\<rparr>]"]
    formatAlertText_spec [of "[\<lparr>label = ''Test'', days = 0\<rparr>, \<lparr>label = ''X'', days = 2\<rparr>,
       \<lparr>label = ''Y'', days = 15\<rparr>]"]
  by (simp add: spec_line_def spec_urgency_def showInt_def showNat.simps digitChar_def)

text \<open>
  Outside that data model: a malformed date string such as "00-10" can give a negative number
  of days, and such an alert falls into the branch \<^verbatim>\<open>a.days <= 3\<close>.
\<close>

lemma negative_days_line: "formatAlertText [\<lparr>label = ''X'', days = - 1\<rparr>] = ''In -1 day(s) -- X''"
  by (simp add: formatAlertText_def formatLine_def showInt_def showNat.simps digitChar_def)

text \<open>
  C6. If no person has a non-empty \<^verbatim>\<open>ownerEmail\<close>, then for every subscriber email
  (a string, or none) and every threshold \<^verbatim>\<open>buildAlertsForSubscriber\<close> returns the very
  list that \<^verbatim>\<open>buildAlerts\<close> returns.
\<close>

theorem broadcast_equals_scoped_on_legacy:
  assumes "\<forall>p \<in> set people. \<not> truthy (ownerEmail p)"
  shows "buildAlertsForSubscriber now people subscriberEmail maxDays =
           Inr (buildAlerts now people maxDays)"
  using assms by (simp add: buildAlertsForSubscriber_def buildAlerts_def peopleLoop_unowned)

theorem broadcast_equals_scoped_on_legacy_witness:
  "buildAlertsForSubscriber dec20 [bea] (Some ''other@x.com'') 7 = Inr (buildAlerts dec20 [bea] 7) \<and>
   buildAlertsForSubscriber dec20 [bea] None 7 = Inr (buildAlerts dec20 [bea] 7) \<and>
   buildAlerts dec20 [bea] 7 =
     [\<lparr>label = ''Bea's Anniversary'', days = 4\<rparr>, \<lparr>label = ''Christmas'', days = 5\<rparr>,
      \<lparr>label = ''Trip (Bea)'', days = 7\<rparr>]"
proof -
  have legacy: "\<forall>p \<in> set [bea]. \<not> truthy (ownerEmail p)"
    by (simp add: unowned_bea)
  have "buildAlerts dec20 [bea] 7 =
     [\<lparr>label = ''Bea's Anniversary'', days = 4\<rparr>, \<lparr>label = ''Christmas'', days = 5\<rparr>,
      \<lparr>label = ''Trip (Bea)'', days = 7\<rparr>]"
    by (simp add: buildAlerts_eq globalAlerts_dec20 personAlerts_bea sortByDays_def)
  then show ?thesis
    using broadcast_equals_scoped_on_legacy [OF legacy, of dec20 "Some ''other@x.com''" 7]
      broadcast_equals_scoped_on_legacy [OF legacy, of dec20 None 7]
    by simp
qed

text \<open>
  C7 does not hold of the code. The pause of 1100 ms stands inside the \<^verbatim>\<open>try\<close>, after the
  send: it is taken after a send that succeeded and not after one that threw. In the sample
  run the request for the first subscriber fails, the second subscriber is skipped, and the
  request for the third is posted with no pause between the two requests.
\<close>

theorem no_pause_after_failed_send:
  "trace (snd (subscriberLoop jun1 [cy, dee] cfg0 failFirst [husband, other, third] start)) =
     [Post (requestFor jun1 [cy, dee] cfg0 husband) (Response 500 ''Internal Server Error''),
      Post (requestFor jun1 [cy, dee] cfg0 third) (Response 200 ''OK''),
      Sleep 1100]"
  by (simp add: run_jun1)

text \<open>
  C8. Whatever the endpoint answers, the loop runs to its end when the alert builder throws
  for no subscriber (it throws for none that has an email): the requests posted are, in
  order, those of all the subscribers that have alerts, so a failed send stops none of the
  later ones; the counter \<open>fail\<close> is the number of requests posted and not delivered, and
  \<open>ok\<close> the number of those delivered.
\<close>

theorem failure_isolation:
  assumes "\<forall>sub \<in> set subs. \<exists>alerts. buildAlertsForSubscriber now people (sub_email sub) 7 = Inr alerts"
  shows "\<exists>s'. subscriberLoop now people cfg provider subs start = (None, s') \<and>
     requests (trace s') =
       map (requestFor now people cfg) (filter (\<lambda>sub. alertsOf now people sub \<noteq> []) subs) \<and>
     fail s' = length (filter failedSend (trace s')) \<and>
     ok s' = length (filter deliveredSend (trace s'))"
proof -
  obtain s' where l: "subscriberLoop now people cfg provider subs start = (None, s')"
    using loop_completes [OF assms, of cfg provider start]
    by (cases "subscriberLoop now people cfg provider subs start") simp
  from loop_requests [OF l] have "requests (trace s') =
       map (requestFor now people cfg) (filter (\<lambda>sub. alertsOf now people sub \<noteq> []) subs)"
    by (simp add: start_def)
  moreover from loop_fail_count [OF l] have "fail s' = length (filter failedSend (trace s'))"
    by (simp add: start_def)
  moreover from loop_ok_count [OF l] have "ok s' = length (filter deliveredSend (trace s'))"
    by (simp add: start_def)
  ultimately show ?thesis using l by blast
qed

theorem failure_isolation_witness:
  "fst (subscriberLoop jun1 [cy, dee] cfg0 failFirst [husband, other, third] start) = None \<and>
   map to_email (requests (trace (snd
     (subscriberLoop jun1 [cy, dee] cfg0 failFirst [husband, other, third] start)))) =
     [Some ''h@x.com'', Some ''t@x.com''] \<and>
   fail (snd (subscriberLoop jun1 [cy, dee] cfg0 failFirst [husband, other, third] start)) = 1 \<and>
   ok (snd (subscriberLoop jun1 [cy, dee] cfg0 failFirst [husband, other, third] start)) = 1"
proof -
  have "\<forall>sub \<in> set [husband, other, third].
      \<exists>alerts. buildAlertsForSubscriber jun1 [cy, dee] (sub_email sub) 7 = Inr alerts"
    by (simp add: alerts_jun1)
  from failure_isolation [OF this, of cfg0 failFirst]
  obtain s' where l: "subscriberLoop jun1 [cy, dee] cfg0 failFirst [husband, other, third] start = (None, s')"
    and r: "requests (trace s') = map (requestFor jun1 [cy, dee] cfg0)
       (filter (\<lambda>sub. alertsOf jun1 [cy, dee] sub \<noteq> []) [husband, other, third])"
    and f: "fail s' = length (filter failedSend (trace s'))"
    and k: "ok s' = length (filter deliveredSend (trace s'))"
    by blast
  have due: "filter (\<lambda>sub. alertsOf jun1 [cy, dee] sub \<noteq> []) [husband, other, third] = [husband, third]"
    by (simp add: alertsOf_def alerts_jun1)
  have to: "map to_email (requests (trace s')) = [Some ''h@x.com'', Some ''t@x.com'']"
    unfolding r due by (simp add: requestFor_jun1)
  have tr: "trace s' =
     [Post (requestFor jun1 [cy, dee] cfg0 husband) (Response 500 ''Internal Server Error''),
      Post (requestFor jun1 [cy, dee] cfg0 third) (Response 200 ''OK''), Sleep 1100]"
    using l by (auto simp add: run_jun1)
  have "fail s' = 1" "ok s' = 1"
    unfolding f k tr by simp_all
  with to show ?thesis
    unfolding l by simp
qed

text \<open>
  C9. The exit status is 1 exactly when \<^verbatim>\<open>main\<close> threw or a send failed, and it is 0
  otherwise. On the early ways out (no configuration document, a required field of it
  missing, no subscribers, no subscriber with an alert) the status is 0 and no request has
  been posted.
\<close>

theorem exit_status:
  "(exitStatus (fst (main now db provider)) = 1 \<longleftrightarrow>
      (\<exists>e. fst (main now db provider) = Threw e) \<or>
      (\<exists>ev \<in> set (trace (snd (main now db provider))). failedSend ev)) \<and>
   (exitStatus (fst (main now db provider)) = 0 \<or> exitStatus (fst (main now db provider)) = 1) \<and>
   (emailConfig db = Inr None \<or>
    (\<exists>cfg. emailConfig db = Inr (Some cfg) \<and>
       (\<not> complete cfg \<or>
        (\<exists>people. wives db = Inr people \<and>
           (subscribers db = Inr [] \<or>
            (\<exists>subs. subscribers db = Inr subs \<and>
               (\<forall>sub \<in> set subs.
                  buildAlertsForSubscriber now people (sub_email sub) 7 = Inr []))))))
    \<longrightarrow> exitStatus (fst (main now db provider)) = 0 \<and>
        trace (snd (main now db provider)) = [])"
proof (intro conjI impI)
  show "exitStatus (fst (main now db provider)) = 1 \<longleftrightarrow>
      (\<exists>e. fst (main now db provider) = Threw e) \<or>
      (\<exists>ev \<in> set (trace (snd (main now db provider))). failedSend ev)"
    using main_outcome [of now db provider] by auto
  show "exitStatus (fst (main now db provider)) = 0 \<or> exitStatus (fst (main now db provider)) = 1"
    using main_outcome [of now db provider] by auto
next
  assume "emailConfig db = Inr None \<or>
    (\<exists>cfg. emailConfig db = Inr (Some cfg) \<and>
       (\<not> complete cfg \<or>
        (\<exists>people. wives db = Inr people \<and>
           (subscribers db = Inr [] \<or>
            (\<exists>subs. subscribers db = Inr subs \<and>
               (\<forall>sub \<in> set subs.
                  buildAlertsForSubscriber now people (sub_email sub) 7 = Inr []))))))"
  then consider
      (absent) "emailConfig db = Inr None"
    | (incomplete) cfg where "emailConfig db = Inr (Some cfg)" "\<not> complete cfg"
    | (nobody) cfg people where "emailConfig db = Inr (Some cfg)" "complete cfg"
        "wives db = Inr people" "subscribers db = Inr []"
    | (nothing) cfg people subs where "emailConfig db = Inr (Some cfg)" "complete cfg"
        "wives db = Inr people" "subscribers db = Inr subs"
        "\<forall>sub \<in> set subs. buildAlertsForSubscriber now people (sub_email sub) 7 = Inr []"
    by blast
  then have "fst (main now db provider) = Returned \<and> trace (snd (main now db provider)) = []"
  proof cases
    case absent
    then show ?thesis by (simp add: main_early start_def)
  next
    case incomplete
    then show ?thesis by (simp add: main_early start_def)
  next
    case nobody
    then show ?thesis by (simp add: main_early start_def)
  next
    case nothing
    then show ?thesis by (simp add: main_all_skipped start_def)
  qed
  then show "exitStatus (fst (main now db provider)) = 0"
    and "trace (snd (main now db provider)) = []"
    by simp_all
qed

theorem exit_status_witness:
  "exitStatus (fst (main jun1 db0 failFirst)) = 1 \<and>
   exitStatus (fst (main jun1 (db0\<lparr>emailConfig := Inr None\<rparr>) failFirst)) = 0 \<and>
   trace (snd (main jun1 (db0\<lparr>emailConfig := Inr None\<rparr>) failFirst)) = [] \<and>
   exitStatus (fst (main jun1 (db0\<lparr>subscribers := Inr [other]\<rparr>) failFirst)) = 0 \<and>
   trace (snd (main jun1 (db0\<lparr>subscribers := Inr [other]\<rparr>) failFirst)) = []"
proof -
  have failed: "\<exists>ev \<in> set (trace (snd (main jun1 db0 failFirst))). failedSend ev"
    by (simp add: main_jun1)
  have cfg: "complete cfg0"
    by (simp add: complete_def cfg0_def)
  show ?thesis
    using exit_status [of jun1 db0 failFirst] failed
      exit_status [of jun1 "db0\<lparr>emailConfig := Inr None\<rparr>" failFirst]
      exit_status [of jun1 "db0\<lparr>subscribers := Inr [other]\<rparr>" failFirst]
    by (simp add: db0_def cfg alerts_jun1)
qed

text \<open>
  C10. When the loop over the subscribers runs to its end, the three counters add up to the
  number of subscribers.
\<close>

theorem counters_partition:
  assumes "subscriberLoop now people cfg provider subs start = (None, s')"
  shows "ok s' + skipped s' + fail s' = length subs"
  using loop_counters [OF assms] by (simp add: start_def)

theorem counters_partition_witness:
  "ok (snd (subscriberLoop jun1 [cy, dee] cfg0 failFirst [husband, other, third] start)) +
   skipped (snd (subscriberLoop jun1 [cy, dee] cfg0 failFirst [husband, other, third] start)) +
   fail (snd (subscriberLoop jun1 [cy, dee] cfg0 failFirst [husband, other, third] start)) =
     length [husband, other, third] \<and>
   skipped (snd (subscriberLoop jun1 [cy, dee] cfg0 failFirst [husband, other, third] start)) = 1"
  using counters_partition [OF run_jun1] by (simp add: run_jun1)

end
